theory Spec2Isabelle
  imports Complex_Main "HOL-Library.AList"
begin

section \<open>The port-knocking server (src/port_knocking/knock_server.py)\<close>

text \<open>
  The server keeps a dictionary \<^verbatim>\<open>knock_attempts\<close> from client address to
  \<^verbatim>\<open>{'ports': [...], 'start_time': t}\<close>. A Python dictionary keeps its keys in
  insertion order, so it is an association list here: \<open>map_of\<close> is the lookup,
  \<open>AList.update\<close> is \<^verbatim>\<open>d[k] = v\<close> (in place for a key that is present, at the end for a
  new key) and \<open>AList.delete\<close> is \<^verbatim>\<open>del d[k]\<close>.

  Ports are Python integers (\<open>int\<close>), addresses are strings, and the readings of
  \<^verbatim>\<open>time.time()\<close> and the window are real numbers.

  Everything the program does to the outside is appended to a trace, in the order in
  which it happens: the log lines, and the two \<^verbatim>\<open>iptables\<close> commands that
  \<^verbatim>\<open>open_protected_port\<close> and \<^verbatim>\<open>close_protected_port\<close> run.
\<close>

subsection \<open>Data\<close>

record attempt =
  ports :: "int list"
  start_time :: real

type_synonym attempts = "(string \<times> attempt) list"

datatype level = INFO | WARNING | ERROR

datatype message =
    MsgListening "int list"
  | MsgProtectedPort int
  | MsgWindow real
  | MsgListeningOn int
  | MsgBindFailed int
  | MsgReady
  | MsgKnock string int
  | MsgTimeout string real real
  | MsgSequence string "int list"
  | MsgCorrect string
  | MsgOpening int string
  | MsgIncorrect string "int list"
  | MsgExpected "int list"
  | MsgError
  | MsgCleanup string
  | MsgOpened int string
  | MsgOpenFailed
  | MsgNoIptablesOpen
  | MsgClosed int
  | MsgCloseFailed
  | MsgNoIptablesClose
  | MsgInit

datatype action =
    LogMsg level message
  | Iptables_ACCEPT int string
  | Iptables_DROP int

text \<open>
  What \<^verbatim>\<open>subprocess.run([...], check=True)\<close> does when it is called: it returns, or it
  raises \<^verbatim>\<open>CalledProcessError\<close> (the command exits with a non-zero status), or
  \<^verbatim>\<open>FileNotFoundError\<close> (there is no \<^verbatim>\<open>iptables\<close>), or another exception (for
  instance \<^verbatim>\<open>PermissionError\<close> for a file that is not executable, or an
  \<^verbatim>\<open>OSError\<close> of a failed \<^verbatim>\<open>fork\<close>). \<open>OtherException\<close> is an exception
  that the handler of line 135 catches when it leaves \<^verbatim>\<open>open_protected_port\<close>; an
  exception that is \<^verbatim>\<open>socket.timeout\<close> (the built-in \<^verbatim>\<open>TimeoutError\<close> since
  Python 3.10) would be caught on line 133 instead, which writes no log line and
  leaves the same dictionary.
\<close>

datatype run_result = Completed | CalledProcessError | FileNotFoundError | OtherException

datatype exn = SystemExit string | UncaughtException

record state =
  knock_attempts :: attempts
  trace :: "action list"

text \<open>
  What \<^verbatim>\<open>sock.accept()\<close> does on one socket in one turn of the loop: it times out, it
  raises another exception, or it returns a connection. A connection comes with the
  client's address, the reading of \<^verbatim>\<open>time.time()\<close> on line 96, and what
  \<^verbatim>\<open>subprocess.run\<close> will do if this knock leads to \<^verbatim>\<open>open_protected_port\<close>.
\<close>

datatype accept_result = Timeout | AcceptError | Connection string real run_result

record iteration =
  accepts :: "accept_result list"
  sweep_time :: real

record args =
  sequence_arg :: string
  protected_port_arg :: int
  window_arg :: real

text \<open>
  What the program meets when it runs: the limit of the interpreter on the number of
  digits that \<^verbatim>\<open>int\<close> converts (\<^verbatim>\<open>sys.get_int_max_str_digits()\<close>: 4300 unless it
  is configured, 0 when there is no limit, and otherwise at least 640), what the \<^verbatim>\<open>iptables\<close> command of
  \<^verbatim>\<open>close_protected_port\<close> does, which sockets can be set up, and what the sockets
  accept in each turn of the loop.
\<close>

record env =
  int_max_str_digits :: nat
  close_result :: run_result
  bind_ok :: "nat \<Rightarrow> bool"
  schedule :: "iteration list"

subsection \<open>The firewall calls (lines 24-58)\<close>

text \<open>
  Both functions return the exception that leaves them, if any, and the trace. The two
  handlers catch \<^verbatim>\<open>CalledProcessError\<close> and \<^verbatim>\<open>FileNotFoundError\<close>; any other
  exception of \<^verbatim>\<open>subprocess.run\<close> leaves the function.
\<close>

definition open_protected_port ::
  "int \<Rightarrow> string \<Rightarrow> run_result \<Rightarrow> action list \<Rightarrow> exn option \<times> action list" where
  "open_protected_port protected_port client_ip r tr =
     (let tr1 = tr @ [Iptables_ACCEPT protected_port client_ip] in
      case r of
        Completed \<Rightarrow> (None, tr1 @ [LogMsg INFO (MsgOpened protected_port client_ip)])
      | CalledProcessError \<Rightarrow> (None, tr1 @ [LogMsg ERROR MsgOpenFailed])
      | FileNotFoundError \<Rightarrow> (None, tr1 @ [LogMsg WARNING MsgNoIptablesOpen])
      | OtherException \<Rightarrow> (Some UncaughtException, tr1))"

definition close_protected_port ::
  "int \<Rightarrow> run_result \<Rightarrow> action list \<Rightarrow> exn option \<times> action list" where
  "close_protected_port protected_port r tr =
     (let tr1 = tr @ [Iptables_DROP protected_port] in
      case r of
        Completed \<Rightarrow> (None, tr1 @ [LogMsg INFO (MsgClosed protected_port)])
      | CalledProcessError \<Rightarrow> (None, tr1 @ [LogMsg ERROR MsgCloseFailed])
      | FileNotFoundError \<Rightarrow> (None, tr1 @ [LogMsg WARNING MsgNoIptablesClose])
      | OtherException \<Rightarrow> (Some UncaughtException, tr1))"

subsection \<open>One knock (lines 92-131)\<close>

text \<open>
  Lines 96-115: the entry of the address is created if it is missing, and then either
  replaced (the window has passed) or extended by the port.
\<close>

definition record_knock :: "real \<Rightarrow> string \<Rightarrow> int \<Rightarrow> real \<Rightarrow> state \<Rightarrow> state" where
  "record_knock window_seconds client_ip knock_port current_time s =
     (let ka1 = (case map_of (knock_attempts s) client_ip of
                   None \<Rightarrow> AList.update client_ip
                             \<lparr>ports = [], start_time = current_time\<rparr> (knock_attempts s)
                 | Some d \<Rightarrow> knock_attempts s);
          d1 = (case map_of (knock_attempts s) client_ip of
                  None \<Rightarrow> \<lparr>ports = [], start_time = current_time\<rparr>
                | Some d \<Rightarrow> d);
          elapsed = current_time - start_time d1
      in if elapsed > window_seconds
         then \<lparr>knock_attempts =
                 AList.update client_ip \<lparr>ports = [knock_port], start_time = current_time\<rparr> ka1,
               trace = trace s @ [LogMsg WARNING (MsgTimeout client_ip elapsed window_seconds)]\<rparr>
         else \<lparr>knock_attempts =
                 AList.update client_ip (d1\<lparr>ports := ports d1 @ [knock_port]\<rparr>) ka1,
               trace = trace s\<rparr>)"

text \<open>
  Lines 117-131: the progress is logged, and a list of the length of the sequence is
  compared with it. \<^verbatim>\<open>del knock_attempts[client_ip]\<close> on line 127 comes after
  \<^verbatim>\<open>open_protected_port\<close>: an exception that leaves that call skips it. Reading
  the entry of an address that has none is \<^verbatim>\<open>KeyError\<close>.
\<close>

definition check_sequence ::
  "int list \<Rightarrow> int \<Rightarrow> string \<Rightarrow> run_result \<Rightarrow> state \<Rightarrow> exn option \<times> state" where
  "check_sequence sequence protected_port client_ip r s =
     (case map_of (knock_attempts s) client_ip of
        None \<Rightarrow> (Some UncaughtException, s)
      | Some d \<Rightarrow>
          (let current_sequence = ports d;
               tr1 = trace s @ [LogMsg INFO (MsgSequence client_ip current_sequence)]
           in if length current_sequence = length sequence
              then if current_sequence = sequence
                   then (case open_protected_port protected_port client_ip r
                                (tr1 @ [LogMsg INFO (MsgCorrect client_ip),
                                        LogMsg INFO (MsgOpening protected_port client_ip)]) of
                           (None, tr2) \<Rightarrow>
                             (None, \<lparr>knock_attempts = AList.delete client_ip (knock_attempts s),
                                     trace = tr2\<rparr>)
                         | (Some e, tr2) \<Rightarrow>
                             (Some e, \<lparr>knock_attempts = knock_attempts s, trace = tr2\<rparr>))
                   else (None, \<lparr>knock_attempts = AList.delete client_ip (knock_attempts s),
                                trace = tr1 @
                                  [LogMsg WARNING (MsgIncorrect client_ip current_sequence),
                                   LogMsg INFO (MsgExpected sequence)]\<rparr>)
              else (None, \<lparr>knock_attempts = knock_attempts s, trace = tr1\<rparr>)))"

definition handle_knock ::
  "int list \<Rightarrow> real \<Rightarrow> int \<Rightarrow> int \<Rightarrow> string \<Rightarrow> real \<Rightarrow> run_result \<Rightarrow> state
     \<Rightarrow> exn option \<times> state" where
  "handle_knock sequence window_seconds protected_port knock_port client_ip current_time r s =
     check_sequence sequence protected_port client_ip r
       (record_knock window_seconds client_ip knock_port current_time
          (s\<lparr>trace := trace s @ [LogMsg INFO (MsgKnock client_ip knock_port)]\<rparr>))"

text \<open>
  Lines 90-136, the body of the \<^verbatim>\<open>for\<close> loop for one socket: a timeout goes on to the
  next socket, and any other exception of the \<^verbatim>\<open>try\<close> block is logged on line 136.
\<close>

definition poll_socket ::
  "int list \<Rightarrow> real \<Rightarrow> int \<Rightarrow> int \<Rightarrow> accept_result \<Rightarrow> state \<Rightarrow> state" where
  "poll_socket sequence window_seconds protected_port knock_port a s =
     (case a of
        Timeout \<Rightarrow> s
      | AcceptError \<Rightarrow> s\<lparr>trace := trace s @ [LogMsg ERROR MsgError]\<rparr>
      | Connection client_ip current_time r \<Rightarrow>
          (case handle_knock sequence window_seconds protected_port knock_port
                  client_ip current_time r s of
             (None, s1) \<Rightarrow> s1
           | (Some e, s1) \<Rightarrow> s1\<lparr>trace := trace s1 @ [LogMsg ERROR MsgError]\<rparr>))"

subsection \<open>The clean-up (lines 138-146)\<close>

definition expired_ips :: "real \<Rightarrow> real \<Rightarrow> attempts \<Rightarrow> string list" where
  "expired_ips window_seconds current_time ka =
     map fst (filter (\<lambda>(ip, data). current_time - start_time data > window_seconds) ka)"

definition cleanup_ip :: "string \<Rightarrow> state \<Rightarrow> state" where
  "cleanup_ip ip s =
     \<lparr>knock_attempts = AList.delete ip (knock_attempts s),
      trace = trace s @ [LogMsg INFO (MsgCleanup ip)]\<rparr>"

definition cleanup :: "real \<Rightarrow> real \<Rightarrow> state \<Rightarrow> state" where
  "cleanup window_seconds current_time s =
     fold cleanup_ip (expired_ips window_seconds current_time (knock_attempts s)) s"

subsection \<open>The listeners and the loop (lines 61-148)\<close>

text \<open>
  Lines 72-84: one socket for each port of the sequence, in order; a port whose
  \<^verbatim>\<open>bind\<close> fails is logged and left out. \<open>ok i\<close> says whether the socket of
  position \<open>i\<close> of the sequence can be set up.
\<close>

fun open_sockets :: "(nat \<Rightarrow> bool) \<Rightarrow> nat \<Rightarrow> int list \<Rightarrow> int list \<times> action list" where
  "open_sockets ok i [] = ([], [])"
| "open_sockets ok i (port # rest) =
     (let (socks, tr) = open_sockets ok (Suc i) rest
      in if ok i then (port # socks, LogMsg INFO (MsgListeningOn port) # tr)
         else (socks, LogMsg ERROR (MsgBindFailed port) # tr))"

definition poll_all ::
  "int list \<Rightarrow> real \<Rightarrow> int \<Rightarrow> int list \<Rightarrow> accept_result list \<Rightarrow> state \<Rightarrow> state" where
  "poll_all sequence window_seconds protected_port sockets as s =
     fold (\<lambda>(knock_port, a). poll_socket sequence window_seconds protected_port knock_port a)
          (zip sockets as) s"

definition loop_iteration ::
  "int list \<Rightarrow> real \<Rightarrow> int \<Rightarrow> int list \<Rightarrow> iteration \<Rightarrow> state \<Rightarrow> state" where
  "loop_iteration sequence window_seconds protected_port sockets it s =
     cleanup window_seconds (sweep_time it)
       (poll_all sequence window_seconds protected_port sockets (accepts it) s)"

text \<open>
  \<^verbatim>\<open>while True\<close> never returns. \<open>listen_for_knocks\<close> is the state of the function
  after the turns of the loop that the schedule lists: the dictionary starts empty, the
  sockets are set up, and each turn polls every socket once, in order, and cleans up.
  A socket beyond the end of \<open>accepts\<close> times out.
\<close>

definition listen_for_knocks ::
  "int list \<Rightarrow> real \<Rightarrow> int \<Rightarrow> (nat \<Rightarrow> bool) \<Rightarrow> iteration list \<Rightarrow> action list \<Rightarrow> state" where
  "listen_for_knocks sequence window_seconds protected_port ok sched tr =
     (let tr1 = tr @ [LogMsg INFO (MsgListening sequence),
                      LogMsg INFO (MsgProtectedPort protected_port),
                      LogMsg INFO (MsgWindow window_seconds)];
          (sockets, tr2) = open_sockets ok 0 sequence
      in fold (loop_iteration sequence window_seconds protected_port sockets) sched
           \<lparr>knock_attempts = [], trace = tr1 @ tr2 @ [LogMsg INFO MsgReady]\<rparr>)"

subsection \<open>Startup (lines 173-187)\<close>

text \<open>
  \<^verbatim>\<open>str.split(",")\<close>: the pieces between the commas; the empty string gives one empty
  piece.
\<close>

fun split_comma :: "string \<Rightarrow> string \<Rightarrow> string list" where
  "split_comma cur [] = [rev cur]"
| "split_comma cur (c # cs) =
     (if c = CHR '','' then rev cur # split_comma [] cs else split_comma (c # cur) cs)"

text \<open>
  \<^verbatim>\<open>int(s)\<close> on a string. A character is a code point below 256. White space
  around the number is dropped: the code points 9 to 13, 32, 133 (U+0085) and 160
  (U+00A0). A sign may come first, directly before the first digit. The digits are
  \<^verbatim>\<open>0\<close> to \<^verbatim>\<open>9\<close>, and two digits may have one underscore between them. When the
  interpreter has a limit on the number of digits, a string with more digits (leading
  zeros count; the sign, the underscores and the white space do not) is refused.
  \<open>None\<close> is \<^verbatim>\<open>ValueError\<close>.
\<close>

definition is_space :: "char \<Rightarrow> bool" where
  "is_space c =
     (let n = (of_char c :: nat) in (9 \<le> n \<and> n \<le> 13) \<or> n = 32 \<or> n = 133 \<or> n = 160)"

definition is_digit :: "char \<Rightarrow> bool" where
  "is_digit c = (48 \<le> (of_char c :: nat) \<and> (of_char c :: nat) \<le> 57)"

definition digit_val :: "char \<Rightarrow> int" where
  "digit_val c = of_char c - 48"

fun parse_digits :: "int \<Rightarrow> string \<Rightarrow> int option" where
  "parse_digits acc [] = Some acc"
| "parse_digits acc [c] =
     (if is_digit c then Some (10 * acc + digit_val c) else None)"
| "parse_digits acc (c # d # ds) =
     (if is_digit c then parse_digits (10 * acc + digit_val c) (d # ds)
      else if c = CHR ''_'' \<and> is_digit d then parse_digits (10 * acc + digit_val d) ds
      else None)"

definition strip :: "string \<Rightarrow> string" where
  "strip s = rev (dropWhile is_space (rev (dropWhile is_space s)))"

definition parse_body :: "nat \<Rightarrow> int \<Rightarrow> string \<Rightarrow> int option" where
  "parse_body max_str_digits sign body =
     (case body of
        [] \<Rightarrow> None
      | d # ds \<Rightarrow>
          if is_digit d
          then if max_str_digits \<noteq> 0 \<and> max_str_digits < length (filter is_digit body)
               then None
               else map_option (\<lambda>v. sign * v) (parse_digits (digit_val d) ds)
          else None)"

definition py_int :: "nat \<Rightarrow> string \<Rightarrow> int option" where
  "py_int max_str_digits s =
     (case strip s of
        [] \<Rightarrow> None
      | c # cs \<Rightarrow>
          if c = CHR ''+'' then parse_body max_str_digits 1 cs
          else if c = CHR ''-'' then parse_body max_str_digits (- 1) cs
          else parse_body max_str_digits 1 (c # cs))"

text \<open>
  Line 178, \<^verbatim>\<open>[int(port) for port in args.sequence.split(",")]\<close>: \<open>None\<close> when one of
  the conversions raises \<^verbatim>\<open>ValueError\<close>.
\<close>

fun int_all :: "nat \<Rightarrow> string list \<Rightarrow> int list option" where
  "int_all m [] = Some []"
| "int_all m (w # ws) =
     (case py_int m w of
        None \<Rightarrow> None
      | Some n \<Rightarrow> (case int_all m ws of None \<Rightarrow> None | Some ns \<Rightarrow> Some (n # ns)))"

definition parse_sequence :: "nat \<Rightarrow> string \<Rightarrow> int list option" where
  "parse_sequence m s = int_all m (split_comma [] s)"

text \<open>
  \<open>main\<close> gives the exception that ends the program, if any, and the state. With
  \<open>None\<close> the program is still in the loop of \<open>listen_for_knocks\<close>, after the turns
  of the schedule.
\<close>

definition main :: "args \<Rightarrow> env \<Rightarrow> exn option \<times> state" where
  "main a e =
     (case parse_sequence (int_max_str_digits e) (sequence_arg a) of
        None \<Rightarrow> (Some (SystemExit ''Invalid sequence. Use comma-separated integers.''),
                 \<lparr>knock_attempts = [], trace = []\<rparr>)
      | Some sequence \<Rightarrow>
          (case close_protected_port (protected_port_arg a) (close_result e)
                  [LogMsg INFO MsgInit] of
             (Some x, tr) \<Rightarrow> (Some x, \<lparr>knock_attempts = [], trace = tr\<rparr>)
           | (None, tr) \<Rightarrow>
               (None, listen_for_knocks sequence (window_arg a) (protected_port_arg a)
                        (bind_ok e) (schedule e) tr)))"

subsection \<open>Derived notions\<close>

text \<open>
  The entry that lines 98-115 leave for the address of a knock, from the entry that
  was there: a new list with the port alone when there was none or the window has
  passed, the old list with the port at its end otherwise.
\<close>

definition updated_attempt :: "real \<Rightarrow> int \<Rightarrow> real \<Rightarrow> attempt option \<Rightarrow> attempt" where
  "updated_attempt w p t old =
     (case old of
        None \<Rightarrow> \<lparr>ports = [p], start_time = t\<rparr>
      | Some d \<Rightarrow> if t - start_time d > w then \<lparr>ports = [p], start_time = t\<rparr>
                  else d\<lparr>ports := ports d @ [p]\<rparr>)"

text \<open>The firewall commands of a trace, without the log lines.\<close>

definition gateway_calls :: "action list \<Rightarrow> action list" where
  "gateway_calls tr = filter (\<lambda>x. case x of LogMsg l m \<Rightarrow> False | _ \<Rightarrow> True) tr"

text \<open>
  What an integer literal is, said without the steps of the conversion: white space,
  then an optional sign, then a digit, then any number of further digits, each with
  or without one underscore before it, then white space.
\<close>

definition white_space :: "char set" where
  "white_space = {CHR 0x09, CHR 0x0A, CHR 0x0B, CHR 0x0C, CHR 0x0D, CHR 0x20, CHR 0x85, CHR 0xA0}"

definition decimal_digits :: "char set" where
  "decimal_digits = set ''0123456789''"

definition further_digit :: "bool \<times> char \<Rightarrow> string" where
  "further_digit x = (if fst x then [CHR ''_'', snd x] else [snd x])"

definition int_literal :: "string \<Rightarrow> bool" where
  "int_literal s \<longleftrightarrow>
     (\<exists>l sg d ds r.
        s = l @ sg @ d # concat (map further_digit ds) @ r \<and>
        set l \<subseteq> white_space \<and> set r \<subseteq> white_space \<and>
        sg \<in> {[], ''+'', ''-''} \<and>
        d \<in> decimal_digits \<and> snd ` set ds \<subseteq> decimal_digits)"

text \<open>The number of digits of a string.\<close>

definition digit_count :: "string \<Rightarrow> nat" where
  "digit_count s = length (filter (\<lambda>c. c \<in> decimal_digits) s)"

text \<open>\<^verbatim>\<open>",".join(ws)\<close>: the option whose pieces between the commas are \<open>ws\<close>.\<close>

fun join_comma :: "string list \<Rightarrow> string" where
  "join_comma [] = []"
| "join_comma [w] = w"
| "join_comma (w # v # ws) = w @ CHR '','' # join_comma (v # ws)"

section \<open>Properties\<close>

subsection \<open>The dictionary after one knock\<close>

lemma knock_attempts_record_knock:
  "knock_attempts (record_knock w ip p t s) =
     AList.update ip (updated_attempt w p t (map_of (knock_attempts s) ip)) (knock_attempts s)"
  by (simp add: record_knock_def updated_attempt_def Let_def split: option.splits)

lemma knock_attempts_record_knock_trace [simp]:
  "knock_attempts (record_knock w ip p t (s\<lparr>trace := tr\<rparr>)) =
     knock_attempts (record_knock w ip p t s)"
  by (simp add: knock_attempts_record_knock)

lemma map_of_record_knock_same:
  "map_of (knock_attempts (record_knock w ip p t s)) ip =
     Some (updated_attempt w p t (map_of (knock_attempts s) ip))"
  by (simp add: knock_attempts_record_knock AList.update_conv')

lemma knock_attempts_check_sequence:
  "knock_attempts (snd (check_sequence sequence pp ip r s)) = knock_attempts s \<or>
   knock_attempts (snd (check_sequence sequence pp ip r s)) = AList.delete ip (knock_attempts s)"
  by (cases r)
     (simp_all add: check_sequence_def open_protected_port_def Let_def split: option.splits)

lemma check_sequence_collecting:
  assumes "map_of (knock_attempts s) ip = Some d" and "length (ports d) \<noteq> length sequence"
  shows "check_sequence sequence pp ip r s =
           (None, s\<lparr>trace := trace s @ [LogMsg INFO (MsgSequence ip (ports d))]\<rparr>)"
  using assms by (simp add: check_sequence_def Let_def)

lemma poll_socket_Connection:
  "poll_socket sequence w pp p (Connection ip t r) s =
     (case check_sequence sequence pp ip r
             (record_knock w ip p t (s\<lparr>trace := trace s @ [LogMsg INFO (MsgKnock ip p)]\<rparr>)) of
        (None, s1) \<Rightarrow> s1
      | (Some e, s1) \<Rightarrow> s1\<lparr>trace := trace s1 @ [LogMsg ERROR MsgError]\<rparr>)"
  by (simp add: poll_socket_def handle_knock_def)

lemma knock_attempts_poll_socket:
  "knock_attempts (poll_socket sequence w pp p a s) = knock_attempts s \<or>
   (\<exists>ip t r. a = Connection ip t r \<and>
      (knock_attempts (poll_socket sequence w pp p a s) =
         AList.update ip (updated_attempt w p t (map_of (knock_attempts s) ip))
           (knock_attempts s) \<or>
       knock_attempts (poll_socket sequence w pp p a s) =
         AList.delete ip (knock_attempts s)))"
proof (cases a)
  case (Connection ip t r)
  let ?s1 = "record_knock w ip p t (s\<lparr>trace := trace s @ [LogMsg INFO (MsgKnock ip p)]\<rparr>)"
  have ka: "knock_attempts ?s1 =
      AList.update ip (updated_attempt w p t (map_of (knock_attempts s) ip)) (knock_attempts s)"
    by (simp add: knock_attempts_record_knock)
  have ps: "knock_attempts (poll_socket sequence w pp p (Connection ip t r) s) =
      knock_attempts (snd (check_sequence sequence pp ip r ?s1))"
    by (simp add: poll_socket_Connection split: prod.splits option.splits)
  from knock_attempts_check_sequence [of sequence pp ip r ?s1] show ?thesis
    unfolding Connection ps ka AList.delete_update_same by auto
qed (simp_all add: poll_socket_def)

subsection \<open>A knock without a live session\<close>

text \<open>
  C3. A knock \<open>(ip, p, t)\<close> arrives and the dictionary has no entry for \<open>ip\<close>, or
  it has one that is older than the window (\<open>t - start_time d > w\<close>). Then the
  entry that lines 98-115 leave for \<open>ip\<close> is exactly \<open>ports = [p]\<close>,
  \<open>start_time = t\<close>: no port of the old entry is kept. Unless the sequence has a
  single port (the entry is then complete, and lines 122-131 resolve it at once),
  this is also the entry of \<open>ip\<close> when the whole knock has been handled.
\<close>

theorem knock_starts_fresh_session:
  assumes "map_of (knock_attempts s) ip = None \<or>
           (\<exists>d. map_of (knock_attempts s) ip = Some d \<and> t - start_time d > w)"
  shows "map_of (knock_attempts (record_knock w ip p t s)) ip =
           Some \<lparr>ports = [p], start_time = t\<rparr> \<and>
         (length sequence \<noteq> 1 \<longrightarrow>
            map_of (knock_attempts (poll_socket sequence w pp p (Connection ip t r) s)) ip =
              Some \<lparr>ports = [p], start_time = t\<rparr>)"
proof -
  have new: "updated_attempt w p t (map_of (knock_attempts s) ip) =
               \<lparr>ports = [p], start_time = t\<rparr>"
    using assms by (auto simp: updated_attempt_def)
  have fresh: "map_of (knock_attempts (record_knock w ip p t s1)) ip =
                 Some \<lparr>ports = [p], start_time = t\<rparr>"
    if "knock_attempts s1 = knock_attempts s" for s1
    using new that by (simp add: map_of_record_knock_same)
  let ?s1 = "record_knock w ip p t (s\<lparr>trace := trace s @ [LogMsg INFO (MsgKnock ip p)]\<rparr>)"
  have "map_of (knock_attempts (poll_socket sequence w pp p (Connection ip t r) s)) ip =
          Some \<lparr>ports = [p], start_time = t\<rparr>" if "length sequence \<noteq> 1"
  proof -
    have m: "map_of (knock_attempts ?s1) ip = Some \<lparr>ports = [p], start_time = t\<rparr>"
      by (rule fresh) simp
    have "check_sequence sequence pp ip r ?s1 =
            (None, ?s1\<lparr>trace := trace ?s1 @ [LogMsg INFO (MsgSequence ip [p])]\<rparr>)"
      using check_sequence_collecting [OF m, of sequence pp r] that by simp
    then show ?thesis
      using m by (simp add: poll_socket_Connection)
  qed
  with fresh [of s] show ?thesis by simp
qed

text \<open>
  The window is 10 seconds. An address whose entry \<open>[1234]\<close> was started at 0 knocks on
  5678 at 11, and an address without an entry knocks on 1234 at 3.
\<close>

theorem knock_starts_fresh_session_witness:
  "map_of (knock_attempts (record_knock 10 ''10.0.0.5'' 5678 11
       \<lparr>knock_attempts = [(''10.0.0.5'', \<lparr>ports = [1234], start_time = 0\<rparr>)], trace = []\<rparr>))
     ''10.0.0.5'' = Some \<lparr>ports = [5678], start_time = 11\<rparr> \<and>
   map_of (knock_attempts (poll_socket [1234, 5678, 9012] 10 2222 5678
       (Connection ''10.0.0.5'' 11 Completed)
       \<lparr>knock_attempts = [(''10.0.0.5'', \<lparr>ports = [1234], start_time = 0\<rparr>)], trace = []\<rparr>))
     ''10.0.0.5'' = Some \<lparr>ports = [5678], start_time = 11\<rparr> \<and>
   map_of (knock_attempts (record_knock 10 ''10.0.0.5'' 1234 3
       \<lparr>knock_attempts = [], trace = []\<rparr>)) ''10.0.0.5'' =
     Some \<lparr>ports = [1234], start_time = 3\<rparr>"
  using knock_starts_fresh_session
          [where s = "\<lparr>knock_attempts = [(''10.0.0.5'', \<lparr>ports = [1234], start_time = 0\<rparr>)],
                        trace = []\<rparr>"
             and ip = "''10.0.0.5''" and t = 11 and w = 10 and p = 5678
             and sequence = "[1234, 5678, 9012]" and pp = 2222 and r = Completed]
        knock_starts_fresh_session
          [where s = "\<lparr>knock_attempts = [], trace = []\<rparr>"
             and ip = "''10.0.0.5''" and t = 3 and w = 10 and p = 1234
             and sequence = "[1234, 5678, 9012]" and pp = 2222 and r = Completed]
  by simp

subsection \<open>A knock that does not complete the list\<close>

lemma updated_attempt_last:
  "ports (updated_attempt w p t old) \<noteq> [] \<and> last (ports (updated_attempt w p t old)) = p"
  by (simp add: updated_attempt_def split: option.splits)

text \<open>
  C4. A knock \<open>(ip, p, t)\<close> is recorded by lines 98-115, and the list of \<open>ip\<close> then
  has another length than the sequence (in particular, it is strictly shorter). Then
  lines 122-131 do nothing, whatever the port is and whether or not the list is a
  prefix of the sequence: the dictionary is the one that lines 98-115 left, the entry
  of \<open>ip\<close> is still there with \<open>p\<close> as its last port, the only new log line is
  the progress line, no \<^verbatim>\<open>INCORRECT SEQUENCE\<close> line is written and no firewall
  command is run. So the comparison with the sequence is made only when the two
  lengths are equal.
\<close>

theorem short_session_keeps_collecting:
  assumes "map_of (knock_attempts (record_knock w ip p t s)) ip = Some d"
    and "length (ports d) \<noteq> length sequence"
  shows "knock_attempts (poll_socket sequence w pp p (Connection ip t r) s) =
           knock_attempts (record_knock w ip p t s) \<and>
         map_of (knock_attempts (poll_socket sequence w pp p (Connection ip t r) s)) ip = Some d \<and>
         ports d \<noteq> [] \<and> last (ports d) = p \<and>
         trace (poll_socket sequence w pp p (Connection ip t r) s) =
           trace (record_knock w ip p t (s\<lparr>trace := trace s @ [LogMsg INFO (MsgKnock ip p)]\<rparr>))
             @ [LogMsg INFO (MsgSequence ip (ports d))] \<and>
         gateway_calls (trace (poll_socket sequence w pp p (Connection ip t r) s)) =
           gateway_calls (trace s)"
proof -
  let ?s1 = "record_knock w ip p t (s\<lparr>trace := trace s @ [LogMsg INFO (MsgKnock ip p)]\<rparr>)"
  have m: "map_of (knock_attempts ?s1) ip = Some d"
    using assms(1) by simp
  have d: "d = updated_attempt w p t (map_of (knock_attempts s) ip)"
    using assms(1) by (simp add: map_of_record_knock_same)
  have ps: "poll_socket sequence w pp p (Connection ip t r) s =
          ?s1\<lparr>trace := trace ?s1 @ [LogMsg INFO (MsgSequence ip (ports d))]\<rparr>"
    using check_sequence_collecting [OF m assms(2), of pp r]
    by (simp add: poll_socket_Connection)
  have g: "gateway_calls (trace ?s1) = gateway_calls (trace s)"
    by (simp add: record_knock_def Let_def gateway_calls_def)
  show ?thesis
    using m g updated_attempt_last [of w p t "map_of (knock_attempts s) ip"]
    by (simp add: ps d [symmetric] gateway_calls_def)
qed

text \<open>
  The sequence is 1234, 5678, 9012. An address that has knocked on 1234 knocks on 9012:
  the list \<open>[1234, 9012]\<close> is not a prefix of the sequence, and it is kept.
\<close>

theorem short_session_keeps_collecting_witness:
  "knock_attempts (poll_socket [1234, 5678, 9012] 10 2222 9012 (Connection ''10.0.0.5'' 1 Completed)
      \<lparr>knock_attempts = [(''10.0.0.5'', \<lparr>ports = [1234], start_time = 0\<rparr>)], trace = []\<rparr>) =
     [(''10.0.0.5'', \<lparr>ports = [1234, 9012], start_time = 0\<rparr>)] \<and>
   trace (poll_socket [1234, 5678, 9012] 10 2222 9012 (Connection ''10.0.0.5'' 1 Completed)
      \<lparr>knock_attempts = [(''10.0.0.5'', \<lparr>ports = [1234], start_time = 0\<rparr>)], trace = []\<rparr>) =
     [LogMsg INFO (MsgKnock ''10.0.0.5'' 9012),
      LogMsg INFO (MsgSequence ''10.0.0.5'' [1234, 9012])]"
  using short_session_keeps_collecting
          [where s = "\<lparr>knock_attempts = [(''10.0.0.5'', \<lparr>ports = [1234], start_time = 0\<rparr>)],
                        trace = []\<rparr>"
             and ip = "''10.0.0.5''" and t = 1 and w = 10 and p = 9012
             and d = "\<lparr>ports = [1234, 9012], start_time = 0\<rparr>"
             and sequence = "[1234, 5678, 9012]" and pp = 2222 and r = Completed]
  by (simp add: record_knock_def)

subsection \<open>The clean-up\<close>

lemma knock_attempts_fold_cleanup_ip:
  "knock_attempts (fold cleanup_ip ips s) = filter (\<lambda>(k, d). k \<notin> set ips) (knock_attempts s)"
proof (induction ips arbitrary: s)
  case Nil
  then show ?case by simp
next
  case (Cons ip ips)
  have "knock_attempts (cleanup_ip ip s) = filter (\<lambda>(k, d). ip \<noteq> k) (knock_attempts s)"
    by (simp add: cleanup_ip_def AList.delete_eq)
  then have "knock_attempts (fold cleanup_ip (ip # ips) s) =
      filter (\<lambda>x. ip \<noteq> fst x \<and> fst x \<notin> set ips) (knock_attempts s)"
    by (simp add: Cons.IH split_def)
  also have "\<dots> = filter (\<lambda>(k, d). k \<notin> set (ip # ips)) (knock_attempts s)"
    by (rule filter_cong [OF refl]) auto
  finally show ?case .
qed

lemma trace_fold_cleanup_ip:
  "trace (fold cleanup_ip ips s) = trace s @ map (\<lambda>ip. LogMsg INFO (MsgCleanup ip)) ips"
  by (induction ips arbitrary: s) (simp_all add: cleanup_ip_def)

lemma knock_attempts_cleanup:
  assumes "distinct (map fst ka)" and "knock_attempts s = ka"
  shows "knock_attempts (cleanup w t s) = filter (\<lambda>(ip, d). \<not> t - start_time d > w) ka"
proof -
  have "(k \<notin> set (expired_ips w t ka)) = (\<not> t - start_time d > w)" if kd: "(k, d) \<in> set ka" for k d
  proof -
    have "k \<in> set (expired_ips w t ka) \<longleftrightarrow> (\<exists>d'. (k, d') \<in> set ka \<and> t - start_time d' > w)"
      by (force simp: expired_ips_def)
    moreover have "(\<exists>d'. (k, d') \<in> set ka \<and> t - start_time d' > w) \<longleftrightarrow> t - start_time d > w"
    proof
      assume "\<exists>d'. (k, d') \<in> set ka \<and> t - start_time d' > w"
      then obtain d' where d': "(k, d') \<in> set ka" "t - start_time d' > w" by blast
      have "map_of ka k = Some d'" "map_of ka k = Some d"
        using map_of_is_SomeI [OF assms(1)] d'(1) kd by blast+
      then have "d' = d" by simp
      with d'(2) show "t - start_time d > w" by simp
    next
      assume "t - start_time d > w"
      with kd show "\<exists>d'. (k, d') \<in> set ka \<and> t - start_time d' > w" by blast
    qed
    ultimately show ?thesis by simp
  qed
  then have "filter (\<lambda>(k, d). k \<notin> set (expired_ips w t ka)) ka =
             filter (\<lambda>(ip, d). \<not> t - start_time d > w) ka"
    by (intro filter_cong [OF refl]) auto
  then show ?thesis
    by (simp add: cleanup_def knock_attempts_fold_cleanup_ip assms(2))
qed

text \<open>
  C5. The clean-up of lines 138-146 at time \<open>t\<close>, on a dictionary (an association
  list without a repeated key): the entries that are left are exactly those with
  \<open>t - start_time d \<le> w\<close>, unchanged and in their order; every entry with
  \<open>t - start_time d > w\<close> is removed. The clean-up writes one log line for each
  address that it removes and nothing else: it runs no firewall command.
\<close>

theorem cleanup_removes_expired_only:
  assumes "distinct (map fst (knock_attempts s))"
  shows "knock_attempts (cleanup w t s) =
           filter (\<lambda>(ip, d). \<not> t - start_time d > w) (knock_attempts s) \<and>
         trace (cleanup w t s) =
           trace s @ map (\<lambda>ip. LogMsg INFO (MsgCleanup ip)) (expired_ips w t (knock_attempts s)) \<and>
         gateway_calls (trace (cleanup w t s)) = gateway_calls (trace s)"
  using knock_attempts_cleanup [OF assms refl, of w t]
  by (simp add: cleanup_def trace_fold_cleanup_ip gateway_calls_def filter_map o_def)

text \<open>
  The window is 10 and the clean-up runs at 12: the entries started at 0 and 1 go,
  the entry started at 2 stays.
\<close>

theorem cleanup_removes_expired_only_witness:
  "knock_attempts (cleanup 10 12
      \<lparr>knock_attempts = [(''10.0.0.5'', \<lparr>ports = [1234], start_time = 0\<rparr>),
                         (''10.0.0.6'', \<lparr>ports = [1234, 5678], start_time = 2\<rparr>),
                         (''10.0.0.7'', \<lparr>ports = [9012], start_time = 1\<rparr>)],
       trace = [Iptables_DROP 2222]\<rparr>) =
     [(''10.0.0.6'', \<lparr>ports = [1234, 5678], start_time = 2\<rparr>)] \<and>
   trace (cleanup 10 12
      \<lparr>knock_attempts = [(''10.0.0.5'', \<lparr>ports = [1234], start_time = 0\<rparr>),
                         (''10.0.0.6'', \<lparr>ports = [1234, 5678], start_time = 2\<rparr>),
                         (''10.0.0.7'', \<lparr>ports = [9012], start_time = 1\<rparr>)],
       trace = [Iptables_DROP 2222]\<rparr>) =
     [Iptables_DROP 2222, LogMsg INFO (MsgCleanup ''10.0.0.5''),
      LogMsg INFO (MsgCleanup ''10.0.0.7'')]"
  using cleanup_removes_expired_only
          [where s = "\<lparr>knock_attempts = [(''10.0.0.5'', \<lparr>ports = [1234], start_time = 0\<rparr>),
                         (''10.0.0.6'', \<lparr>ports = [1234, 5678], start_time = 2\<rparr>),
                         (''10.0.0.7'', \<lparr>ports = [9012], start_time = 1\<rparr>)],
                        trace = [Iptables_DROP 2222]\<rparr>" and w = 10 and t = 12]
  by (simp add: expired_ips_def)

subsection \<open>Runs of the loop\<close>

text \<open>The definitions that a run on given knocks unfolds.\<close>

lemmas step_defs = poll_socket_def
  handle_knock_def record_knock_def check_sequence_def open_protected_port_def Let_def

lemmas iter_defs = loop_iteration_def poll_all_def cleanup_def expired_ips_def cleanup_ip_def

lemma listen_for_knocks_append:
  "listen_for_knocks sequence w pp ok (sched1 @ sched2) tr =
     fold (loop_iteration sequence w pp (fst (open_sockets ok 0 sequence))) sched2
       (listen_for_knocks sequence w pp ok sched1 tr)"
  by (simp add: listen_for_knocks_def split_def Let_def)

text \<open>
  Two addresses knock on 1234, 5678 and 9012 in turn, one knock in each turn of the
  loop, all within the window of 10 seconds.
\<close>

lemma interleaved_first_half:
  "listen_for_knocks [1234, 5678, 9012] 10 2222 (\<lambda>i. True)
     [\<lparr>accepts = [Connection ''10.0.0.5'' 0 Completed], sweep_time = 0\<rparr>,
      \<lparr>accepts = [Connection ''10.0.0.6'' 1 Completed], sweep_time = 1\<rparr>,
      \<lparr>accepts = [Timeout, Connection ''10.0.0.5'' 2 Completed], sweep_time = 2\<rparr>] [] =
   \<lparr>knock_attempts = [(''10.0.0.5'', \<lparr>ports = [1234, 5678], start_time = 0\<rparr>),
                      (''10.0.0.6'', \<lparr>ports = [1234], start_time = 1\<rparr>)],
    trace = [LogMsg INFO (MsgListening [1234, 5678, 9012]),
             LogMsg INFO (MsgProtectedPort 2222), LogMsg INFO (MsgWindow 10),
             LogMsg INFO (MsgListeningOn 1234), LogMsg INFO (MsgListeningOn 5678),
             LogMsg INFO (MsgListeningOn 9012), LogMsg INFO MsgReady,
             LogMsg INFO (MsgKnock ''10.0.0.5'' 1234),
             LogMsg INFO (MsgSequence ''10.0.0.5'' [1234]),
             LogMsg INFO (MsgKnock ''10.0.0.6'' 1234),
             LogMsg INFO (MsgSequence ''10.0.0.6'' [1234]),
             LogMsg INFO (MsgKnock ''10.0.0.5'' 5678),
             LogMsg INFO (MsgSequence ''10.0.0.5'' [1234, 5678])]\<rparr>"
  by (simp add: listen_for_knocks_def step_defs iter_defs)

lemma interleaved_run:
  "listen_for_knocks [1234, 5678, 9012] 10 2222 (\<lambda>i. True)
     [\<lparr>accepts = [Connection ''10.0.0.5'' 0 Completed], sweep_time = 0\<rparr>,
      \<lparr>accepts = [Connection ''10.0.0.6'' 1 Completed], sweep_time = 1\<rparr>,
      \<lparr>accepts = [Timeout, Connection ''10.0.0.5'' 2 Completed], sweep_time = 2\<rparr>,
      \<lparr>accepts = [Timeout, Connection ''10.0.0.6'' 3 Completed], sweep_time = 3\<rparr>,
      \<lparr>accepts = [Timeout, Timeout, Connection ''10.0.0.5'' 4 Completed], sweep_time = 4\<rparr>,
      \<lparr>accepts = [Timeout, Timeout, Connection ''10.0.0.6'' 5 Completed], sweep_time = 5\<rparr>] [] =
   \<lparr>knock_attempts = [],
    trace = [LogMsg INFO (MsgListening [1234, 5678, 9012]),
             LogMsg INFO (MsgProtectedPort 2222), LogMsg INFO (MsgWindow 10),
             LogMsg INFO (MsgListeningOn 1234), LogMsg INFO (MsgListeningOn 5678),
             LogMsg INFO (MsgListeningOn 9012), LogMsg INFO MsgReady,
             LogMsg INFO (MsgKnock ''10.0.0.5'' 1234),
             LogMsg INFO (MsgSequence ''10.0.0.5'' [1234]),
             LogMsg INFO (MsgKnock ''10.0.0.6'' 1234),
             LogMsg INFO (MsgSequence ''10.0.0.6'' [1234]),
             LogMsg INFO (MsgKnock ''10.0.0.5'' 5678),
             LogMsg INFO (MsgSequence ''10.0.0.5'' [1234, 5678]),
             LogMsg INFO (MsgKnock ''10.0.0.6'' 5678),
             LogMsg INFO (MsgSequence ''10.0.0.6'' [1234, 5678]),
             LogMsg INFO (MsgKnock ''10.0.0.5'' 9012),
             LogMsg INFO (MsgSequence ''10.0.0.5'' [1234, 5678, 9012]),
             LogMsg INFO (MsgCorrect ''10.0.0.5''),
             LogMsg INFO (MsgOpening 2222 ''10.0.0.5''),
             Iptables_ACCEPT 2222 ''10.0.0.5'',
             LogMsg INFO (MsgOpened 2222 ''10.0.0.5''),
             LogMsg INFO (MsgKnock ''10.0.0.6'' 9012),
             LogMsg INFO (MsgSequence ''10.0.0.6'' [1234, 5678, 9012]),
             LogMsg INFO (MsgCorrect ''10.0.0.6''),
             LogMsg INFO (MsgOpening 2222 ''10.0.0.6''),
             Iptables_ACCEPT 2222 ''10.0.0.6'',
             LogMsg INFO (MsgOpened 2222 ''10.0.0.6'')]\<rparr>"
proof -
  have socks: "fst (open_sockets (\<lambda>i. True) 0 [1234, 5678, 9012]) = [1234, 5678, 9012]"
    by simp
  show ?thesis
    using listen_for_knocks_append [of "[1234, 5678, 9012]" 10 2222 "\<lambda>i. True"
      "[\<lparr>accepts = [Connection ''10.0.0.5'' 0 Completed], sweep_time = 0\<rparr>,
        \<lparr>accepts = [Connection ''10.0.0.6'' 1 Completed], sweep_time = 1\<rparr>,
        \<lparr>accepts = [Timeout, Connection ''10.0.0.5'' 2 Completed], sweep_time = 2\<rparr>]"
      "[\<lparr>accepts = [Timeout, Connection ''10.0.0.6'' 3 Completed], sweep_time = 3\<rparr>,
        \<lparr>accepts = [Timeout, Timeout, Connection ''10.0.0.5'' 4 Completed], sweep_time = 4\<rparr>,
        \<lparr>accepts = [Timeout, Timeout, Connection ''10.0.0.6'' 5 Completed], sweep_time = 5\<rparr>]"
      "[]"]
    unfolding interleaved_first_half socks
    by (simp add: step_defs iter_defs)
qed

subsection \<open>Other addresses\<close>

lemma map_of_poll_socket_other:
  assumes "\<forall>t r. a \<noteq> Connection b t r"
  shows "map_of (knock_attempts (poll_socket sequence w pp p a s)) b = map_of (knock_attempts s) b"
  using knock_attempts_poll_socket [of sequence w pp p a s] assms
  by (auto simp: AList.update_conv' AList.delete_conv')

text \<open>
  C6. Whatever \<^verbatim>\<open>accept\<close> gives on a socket, if it is not a connection from address
  \<open>b\<close>, the entry of \<open>b\<close> in the dictionary (or its absence) is the same before and
  after lines 90-136. And in the run above, where 10.0.0.5 and 10.0.0.6 knock in turn
  on 1234, 5678 and 9012, the firewall is opened once for each of them, and the
  dictionary is empty at the end.
\<close>

theorem knock_leaves_other_addresses:
  "((\<forall>t r. a \<noteq> Connection b t r) \<longrightarrow>
      map_of (knock_attempts (poll_socket sequence w pp p a s)) b = map_of (knock_attempts s) b) \<and>
   knock_attempts (listen_for_knocks [1234, 5678, 9012] 10 2222 (\<lambda>i. True)
     [\<lparr>accepts = [Connection ''10.0.0.5'' 0 Completed], sweep_time = 0\<rparr>,
      \<lparr>accepts = [Connection ''10.0.0.6'' 1 Completed], sweep_time = 1\<rparr>,
      \<lparr>accepts = [Timeout, Connection ''10.0.0.5'' 2 Completed], sweep_time = 2\<rparr>,
      \<lparr>accepts = [Timeout, Connection ''10.0.0.6'' 3 Completed], sweep_time = 3\<rparr>,
      \<lparr>accepts = [Timeout, Timeout, Connection ''10.0.0.5'' 4 Completed], sweep_time = 4\<rparr>,
      \<lparr>accepts = [Timeout, Timeout, Connection ''10.0.0.6'' 5 Completed], sweep_time = 5\<rparr>]
     []) = [] \<and>
   gateway_calls (trace (listen_for_knocks [1234, 5678, 9012] 10 2222 (\<lambda>i. True)
     [\<lparr>accepts = [Connection ''10.0.0.5'' 0 Completed], sweep_time = 0\<rparr>,
      \<lparr>accepts = [Connection ''10.0.0.6'' 1 Completed], sweep_time = 1\<rparr>,
      \<lparr>accepts = [Timeout, Connection ''10.0.0.5'' 2 Completed], sweep_time = 2\<rparr>,
      \<lparr>accepts = [Timeout, Connection ''10.0.0.6'' 3 Completed], sweep_time = 3\<rparr>,
      \<lparr>accepts = [Timeout, Timeout, Connection ''10.0.0.5'' 4 Completed], sweep_time = 4\<rparr>,
      \<lparr>accepts = [Timeout, Timeout, Connection ''10.0.0.6'' 5 Completed], sweep_time = 5\<rparr>]
     [])) = [Iptables_ACCEPT 2222 ''10.0.0.5'', Iptables_ACCEPT 2222 ''10.0.0.6'']"
  unfolding interleaved_run
  using map_of_poll_socket_other [of a b sequence w pp p s]
  by (simp add: gateway_calls_def)

text \<open>A knock of 10.0.0.5 on 5678 leaves the entry \<open>[1234]\<close> of 10.0.0.6 as it is.\<close>

theorem knock_leaves_other_addresses_witness:
  "map_of (knock_attempts (poll_socket [1234, 5678, 9012] 10 2222 5678
       (Connection ''10.0.0.5'' 2 Completed)
       \<lparr>knock_attempts = [(''10.0.0.5'', \<lparr>ports = [1234], start_time = 0\<rparr>),
                          (''10.0.0.6'', \<lparr>ports = [1234], start_time = 1\<rparr>)],
        trace = []\<rparr>)) ''10.0.0.6'' = Some \<lparr>ports = [1234], start_time = 1\<rparr>"
  using knock_leaves_other_addresses
          [where a = "Connection ''10.0.0.5'' 2 Completed" and b = "''10.0.0.6''"
             and sequence = "[1234, 5678, 9012]" and w = 10 and pp = 2222 and p = 5678
             and s = "\<lparr>knock_attempts = [(''10.0.0.5'', \<lparr>ports = [1234], start_time = 0\<rparr>),
                                          (''10.0.0.6'', \<lparr>ports = [1234], start_time = 1\<rparr>)],
                        trace = []\<rparr>"]
  by simp

subsection \<open>What holds of the dictionary in every run\<close>

text \<open>
  A property of the dictionary holds after every run of \<open>listen_for_knocks\<close> when it
  holds of the empty dictionary, is kept by removing entries, and is kept by
  lines 90-136 for a socket whose port is in the sequence. \<open>A\<close> restricts what
  \<^verbatim>\<open>accept\<close> may give in the run.
\<close>

lemma set_open_sockets: "set (fst (open_sockets ok i sequence)) \<subseteq> set sequence"
  by (induction sequence arbitrary: i) (auto simp: split_def Let_def)

lemma knock_attempts_cleanup_filter:
  "knock_attempts (cleanup w t s) =
     filter (\<lambda>(k, d). k \<notin> set (expired_ips w t (knock_attempts s))) (knock_attempts s)"
  by (simp add: cleanup_def knock_attempts_fold_cleanup_ip)

lemma fold_poll_socket_invariant:
  assumes step: "\<And>p a s. I (knock_attempts s) \<Longrightarrow> p \<in> set sequence \<Longrightarrow> A a \<Longrightarrow>
                   I (knock_attempts (poll_socket sequence w pp p a s))"
    and "I (knock_attempts s)"
    and "\<forall>(p, a) \<in> set zs. p \<in> set sequence \<and> A a"
  shows "I (knock_attempts
            (fold (\<lambda>(knock_port, a). poll_socket sequence w pp knock_port a) zs s))"
  using assms(2,3)
proof (induction zs arbitrary: s)
  case Nil
  then show ?case by simp
next
  case (Cons z zs)
  obtain p a where z: "z = (p, a)" by (cases z)
  have "I (knock_attempts (poll_socket sequence w pp p a s))"
    using Cons.prems z by (intro step) auto
  then show ?case
    using Cons.prems by (simp add: z Cons.IH)
qed

lemma listen_for_knocks_invariant:
  assumes init: "I []"
    and filt: "\<And>ka P. I ka \<Longrightarrow> I (filter P ka)"
    and step: "\<And>p a s. I (knock_attempts s) \<Longrightarrow> p \<in> set sequence \<Longrightarrow> A a \<Longrightarrow>
                   I (knock_attempts (poll_socket sequence w pp p a s))"
    and sched: "\<forall>it \<in> set sched. \<forall>a \<in> set (accepts it). A a"
  shows "I (knock_attempts (listen_for_knocks sequence w pp ok sched tr))"
proof -
  let ?socks = "fst (open_sockets ok 0 sequence)"
  have iter: "I (knock_attempts (loop_iteration sequence w pp ?socks it s))"
    if "I (knock_attempts s)" and "\<forall>a \<in> set (accepts it). A a" for it s
  proof -
    have "\<forall>(p, a) \<in> set (zip ?socks (accepts it)). p \<in> set sequence \<and> A a"
      using that(2) set_open_sockets [of ok 0 sequence] by (auto dest: set_zip_leftD set_zip_rightD)
    then have "I (knock_attempts (poll_all sequence w pp ?socks (accepts it) s))"
      unfolding poll_all_def using step that(1) by (rule fold_poll_socket_invariant [rotated 2])
    then show ?thesis
      by (simp add: loop_iteration_def knock_attempts_cleanup_filter filt)
  qed
  have run: "I (knock_attempts (fold (loop_iteration sequence w pp ?socks) sc s))"
    if "I (knock_attempts s)" and "\<forall>it \<in> set sc. \<forall>a \<in> set (accepts it). A a" for sc s
    using that by (induction sc arbitrary: s) (simp_all add: iter)
  show ?thesis
    using run [OF _ sched] init by (simp add: listen_for_knocks_def split_def Let_def)
qed

lemma set_update_subset: "set (AList.update k v al) \<subseteq> insert (k, v) (set al)"
  by (induction al) auto

lemma ports_updated_attempt:
  "set (ports (updated_attempt w p t old)) \<subseteq>
     insert p (case old of None \<Rightarrow> {} | Some d \<Rightarrow> set (ports d))"
  by (auto simp: updated_attempt_def split: option.splits)

text \<open>
  C10. After any number of turns of the loop, whatever the sockets accept and whichever
  ports could be bound, every port in every list of the dictionary is a port of the
  sequence: the sockets are bound to ports of the sequence only, and a list gets its
  ports from the sockets.
\<close>

theorem recorded_ports_in_sequence:
  "\<forall>(ip, d) \<in> set (knock_attempts (listen_for_knocks sequence w pp ok sched tr)).
     set (ports d) \<subseteq> set sequence"
proof (rule listen_for_knocks_invariant [where A = "\<lambda>a. True"])
  fix p a and s :: state
  assume inv: "\<forall>(ip, d) \<in> set (knock_attempts s). set (ports d) \<subseteq> set sequence"
    and p: "p \<in> set sequence"
  have new: "set (ports (updated_attempt w p t (map_of (knock_attempts s) ip))) \<subseteq> set sequence"
    for ip t
  proof (cases "map_of (knock_attempts s) ip")
    case None
    then show ?thesis using p by (simp add: updated_attempt_def)
  next
    case (Some d)
    then have "(ip, d) \<in> set (knock_attempts s)" by (rule map_of_SomeD)
    with inv have "set (ports d) \<subseteq> set sequence" by auto
    then show ?thesis using p Some by (auto simp: updated_attempt_def)
  qed
  have del: "set (AList.delete ip (knock_attempts s)) \<subseteq> set (knock_attempts s)" for ip
    by (auto simp: AList.delete_eq)
  from knock_attempts_poll_socket [of sequence w pp p a s]
  show "\<forall>(ip, d) \<in> set (knock_attempts (poll_socket sequence w pp p a s)).
          set (ports d) \<subseteq> set sequence"
  proof (elim disjE exE conjE)
    assume "knock_attempts (poll_socket sequence w pp p a s) = knock_attempts s"
    with inv show ?thesis by simp
  next
    fix ip t r
    assume "knock_attempts (poll_socket sequence w pp p a s) =
              AList.update ip (updated_attempt w p t (map_of (knock_attempts s) ip))
                (knock_attempts s)"
    then show ?thesis
      using inv new [of t ip]
        set_update_subset [of ip "updated_attempt w p t (map_of (knock_attempts s) ip)"
                              "knock_attempts s"]
      by auto
  next
    fix ip t r
    assume "knock_attempts (poll_socket sequence w pp p a s) = AList.delete ip (knock_attempts s)"
    then show ?thesis
      using inv del [of ip] by auto
  qed
qed auto

text \<open>After three knocks of the run above, 10.0.0.5 has the list \<open>[1234, 5678]\<close>.\<close>

theorem recorded_ports_in_sequence_witness:
  "(''10.0.0.5'', \<lparr>ports = [1234, 5678], start_time = 0\<rparr>) \<in>
     set (knock_attempts (listen_for_knocks [1234, 5678, 9012] 10 2222 (\<lambda>i. True)
       [\<lparr>accepts = [Connection ''10.0.0.5'' 0 Completed], sweep_time = 0\<rparr>,
        \<lparr>accepts = [Connection ''10.0.0.6'' 1 Completed], sweep_time = 1\<rparr>,
        \<lparr>accepts = [Timeout, Connection ''10.0.0.5'' 2 Completed], sweep_time = 2\<rparr>] [])) \<and>
   set [1234, 5678] \<subseteq> set [1234, 5678, 9012 :: int]"
  using recorded_ports_in_sequence [of "[1234, 5678, 9012]" 10 2222 "\<lambda>i. True"
      "[\<lparr>accepts = [Connection ''10.0.0.5'' 0 Completed], sweep_time = 0\<rparr>,
        \<lparr>accepts = [Connection ''10.0.0.6'' 1 Completed], sweep_time = 1\<rparr>,
        \<lparr>accepts = [Timeout, Connection ''10.0.0.5'' 2 Completed], sweep_time = 2\<rparr>]" "[]"]
  unfolding interleaved_first_half by simp

subsection \<open>The trace only grows\<close>

lemma trace_poll_socket: "\<exists>ev. trace (poll_socket sequence w pp p a s) = trace s @ ev"
  by (cases a; cases "case a of Connection ip t r \<Rightarrow> r | _ \<Rightarrow> Completed")
     (auto simp: step_defs split: option.splits)

lemma trace_fold_poll_socket:
  "\<exists>ev. trace (fold (\<lambda>(knock_port, a). poll_socket sequence w pp knock_port a) zs s) = trace s @ ev"
proof (induction zs arbitrary: s)
  case Nil
  then show ?case by simp
next
  case (Cons z zs)
  obtain p a where z: "z = (p, a)" by (cases z)
  obtain ev1 where ev1: "trace (poll_socket sequence w pp p a s) = trace s @ ev1"
    using trace_poll_socket by blast
  obtain ev2 where "trace (fold (\<lambda>(knock_port, a). poll_socket sequence w pp knock_port a) zs
                       (poll_socket sequence w pp p a s)) = trace (poll_socket sequence w pp p a s) @ ev2"
    using Cons.IH by blast
  then show ?case by (simp add: z ev1)
qed

lemma trace_loop_iteration:
  "\<exists>ev. trace (loop_iteration sequence w pp socks it s) = trace s @ ev"
proof -
  obtain ev where "trace (poll_all sequence w pp socks (accepts it) s) = trace s @ ev"
    unfolding poll_all_def using trace_fold_poll_socket by blast
  then show ?thesis
    by (simp add: loop_iteration_def cleanup_def trace_fold_cleanup_ip)
qed

lemma trace_fold_loop_iteration:
  "\<exists>ev. trace (fold (loop_iteration sequence w pp socks) sched s) = trace s @ ev"
proof (induction sched arbitrary: s)
  case Nil
  then show ?case by simp
next
  case (Cons it sched)
  obtain ev1 where ev1: "trace (loop_iteration sequence w pp socks it s) = trace s @ ev1"
    using trace_loop_iteration by blast
  obtain ev2 where "trace (fold (loop_iteration sequence w pp socks) sched
                       (loop_iteration sequence w pp socks it s)) =
                    trace (loop_iteration sequence w pp socks it s) @ ev2"
    using Cons.IH by blast
  then show ?case by (simp add: ev1)
qed

lemma trace_listen_for_knocks:
  "\<exists>ev. trace (listen_for_knocks sequence w pp ok sched tr) = tr @ ev"
proof -
  let ?s0 = "\<lparr>knock_attempts = [],
              trace = (tr @ [LogMsg INFO (MsgListening sequence), LogMsg INFO (MsgProtectedPort pp),
                             LogMsg INFO (MsgWindow w)]) @
                      snd (open_sockets ok 0 sequence) @ [LogMsg INFO MsgReady]\<rparr>"
  obtain ev where "trace (fold (loop_iteration sequence w pp (fst (open_sockets ok 0 sequence)))
                     sched ?s0) = trace ?s0 @ ev"
    using trace_fold_loop_iteration by blast
  then show ?thesis
    by (simp add: listen_for_knocks_def split_def Let_def)
qed

lemma trace_main:
  assumes "parse_sequence (int_max_str_digits e) (sequence_arg a) = Some sq"
  shows "\<exists>rest. trace (snd (main a e)) =
           LogMsg INFO MsgInit # Iptables_DROP (protected_port_arg a) # rest"
proof (cases "close_result e")
  case OtherException
  then show ?thesis
    using assms by (simp add: main_def close_protected_port_def)
next
  case Completed
  obtain ev where "trace (listen_for_knocks sq (window_arg a) (protected_port_arg a) (bind_ok e)
      (schedule e) [LogMsg INFO MsgInit, Iptables_DROP (protected_port_arg a),
                    LogMsg INFO (MsgClosed (protected_port_arg a))]) =
      [LogMsg INFO MsgInit, Iptables_DROP (protected_port_arg a),
       LogMsg INFO (MsgClosed (protected_port_arg a))] @ ev"
    using trace_listen_for_knocks by blast
  then show ?thesis
    using assms Completed by (simp add: main_def close_protected_port_def)
next
  case CalledProcessError
  obtain ev where "trace (listen_for_knocks sq (window_arg a) (protected_port_arg a) (bind_ok e)
      (schedule e) [LogMsg INFO MsgInit, Iptables_DROP (protected_port_arg a),
                    LogMsg ERROR MsgCloseFailed]) =
      [LogMsg INFO MsgInit, Iptables_DROP (protected_port_arg a),
       LogMsg ERROR MsgCloseFailed] @ ev"
    using trace_listen_for_knocks by blast
  then show ?thesis
    using assms CalledProcessError by (simp add: main_def close_protected_port_def)
next
  case FileNotFoundError
  obtain ev where "trace (listen_for_knocks sq (window_arg a) (protected_port_arg a) (bind_ok e)
      (schedule e) [LogMsg INFO MsgInit, Iptables_DROP (protected_port_arg a),
                    LogMsg WARNING MsgNoIptablesClose]) =
      [LogMsg INFO MsgInit, Iptables_DROP (protected_port_arg a),
       LogMsg WARNING MsgNoIptablesClose] @ ev"
    using trace_listen_for_knocks by blast
  then show ?thesis
    using assms FileNotFoundError by (simp add: main_def close_protected_port_def)
qed

subsection \<open>Startup\<close>

text \<open>
  C7. In the trace of any run of \<open>main\<close>, whatever the arguments, the outcome of the
  firewall commands, the ports that can be bound and the knocks: before the log line
  of a knock (line 93, the first thing done with an accepted connection) and before
  an \<^verbatim>\<open>iptables ... -j ACCEPT\<close> command there is the \<^verbatim>\<open>iptables ... -j DROP\<close>
  command of \<^verbatim>\<open>close_protected_port\<close> for the protected port.
\<close>

theorem deny_before_first_knock:
  assumes "trace (snd (main a e)) = pre @ x # post"
    and "(\<exists>q ip. x = Iptables_ACCEPT q ip) \<or> (\<exists>ip p. x = LogMsg INFO (MsgKnock ip p))"
  shows "Iptables_DROP (protected_port_arg a) \<in> set pre"
proof (cases "parse_sequence (int_max_str_digits e) (sequence_arg a)")
  case None
  then show ?thesis using assms(1) by (simp add: main_def)
next
  case (Some sq)
  then obtain rest where
    "pre @ x # post = LogMsg INFO MsgInit # Iptables_DROP (protected_port_arg a) # rest"
    using trace_main [OF Some] assms(1) by auto
  then show ?thesis
    using assms(2) by (cases pre; cases "tl pre") auto
qed

lemma parse_default_sequence:
  "parse_sequence 4300 ''1234,5678,9012'' = Some [1234, 5678, 9012]"
  by code_simp

text \<open>One knock on 1234 after a startup with the default arguments.\<close>

theorem deny_before_first_knock_witness:
  "trace (snd (main \<lparr>sequence_arg = ''1234,5678,9012'', protected_port_arg = 2222, window_arg = 10\<rparr>
      \<lparr>int_max_str_digits = 4300, close_result = Completed, bind_ok = (\<lambda>i. True),
       schedule = [\<lparr>accepts = [Connection ''10.0.0.5'' 0 Completed], sweep_time = 0\<rparr>]\<rparr>)) =
     [LogMsg INFO MsgInit, Iptables_DROP 2222, LogMsg INFO (MsgClosed 2222),
      LogMsg INFO (MsgListening [1234, 5678, 9012]), LogMsg INFO (MsgProtectedPort 2222),
      LogMsg INFO (MsgWindow 10), LogMsg INFO (MsgListeningOn 1234),
      LogMsg INFO (MsgListeningOn 5678), LogMsg INFO (MsgListeningOn 9012),
      LogMsg INFO MsgReady] @
     LogMsg INFO (MsgKnock ''10.0.0.5'' 1234) # [LogMsg INFO (MsgSequence ''10.0.0.5'' [1234])] \<and>
   Iptables_DROP 2222 \<in> set [LogMsg INFO MsgInit, Iptables_DROP 2222, LogMsg INFO (MsgClosed 2222),
      LogMsg INFO (MsgListening [1234, 5678, 9012]), LogMsg INFO (MsgProtectedPort 2222),
      LogMsg INFO (MsgWindow 10), LogMsg INFO (MsgListeningOn 1234),
      LogMsg INFO (MsgListeningOn 5678), LogMsg INFO (MsgListeningOn 9012),
      LogMsg INFO MsgReady]"
proof -
  have run: "trace (snd (main \<lparr>sequence_arg = ''1234,5678,9012'', protected_port_arg = 2222, window_arg = 10\<rparr>
      \<lparr>int_max_str_digits = 4300, close_result = Completed, bind_ok = (\<lambda>i. True),
       schedule = [\<lparr>accepts = [Connection ''10.0.0.5'' 0 Completed], sweep_time = 0\<rparr>]\<rparr>)) =
     [LogMsg INFO MsgInit, Iptables_DROP 2222, LogMsg INFO (MsgClosed 2222),
      LogMsg INFO (MsgListening [1234, 5678, 9012]), LogMsg INFO (MsgProtectedPort 2222),
      LogMsg INFO (MsgWindow 10), LogMsg INFO (MsgListeningOn 1234),
      LogMsg INFO (MsgListeningOn 5678), LogMsg INFO (MsgListeningOn 9012),
      LogMsg INFO MsgReady] @
     LogMsg INFO (MsgKnock ''10.0.0.5'' 1234) # [LogMsg INFO (MsgSequence ''10.0.0.5'' [1234])]"
    by (simp add: main_def parse_default_sequence close_protected_port_def
          listen_for_knocks_def step_defs iter_defs)
  from deny_before_first_knock [OF run] run show ?thesis by simp
qed

subsection \<open>An invalid sequence\<close>

text \<open>
  The tests on code points that the conversion makes are the two sets of characters
  that the notion of an integer literal names.
\<close>

lemma char_eq_code: "c = d \<longleftrightarrow> (of_char c :: nat) = of_char d"
  by simp

lemma is_space_iff: "is_space c \<longleftrightarrow> c \<in> white_space"
proof -
  have "c \<in> white_space \<longleftrightarrow>
          (of_char c :: nat) \<in> {9, 10, 11, 12, 13, 32, 133, 160}"
    unfolding white_space_def insert_iff empty_iff char_eq_code [of c]
    by (simp del: of_char_eq_iff)
  also have "\<dots> \<longleftrightarrow> is_space c"
    unfolding is_space_def Let_def by (simp del: of_char_eq_iff) arith
  finally show ?thesis by simp
qed

lemma is_digit_iff: "is_digit c \<longleftrightarrow> c \<in> decimal_digits"
proof -
  have "c \<in> decimal_digits \<longleftrightarrow>
          (of_char c :: nat) \<in> {48, 49, 50, 51, 52, 53, 54, 55, 56, 57}"
    unfolding decimal_digits_def list.set insert_iff empty_iff char_eq_code [of c]
    by (simp del: of_char_eq_iff)
  also have "\<dots> \<longleftrightarrow> is_digit c"
    unfolding is_digit_def by (simp del: of_char_eq_iff) arith
  finally show ?thesis by simp
qed


lemma digit_not_space: "is_digit c \<Longrightarrow> \<not> is_space c"
  by (simp add: is_digit_def is_space_def Let_def)

lemma sign_chars [simp]:
  "\<not> is_digit CHR ''+''" "\<not> is_digit CHR ''-''" "\<not> is_digit CHR ''_''"
  "\<not> is_space CHR ''+''" "\<not> is_space CHR ''-''"
  by (simp_all add: is_digit_def is_space_def)

text \<open>
  The digits after the first: \<open>parse_digits\<close> gives a number exactly on a string of
  further digits, each with or without one underscore before it.
\<close>

lemma further_digit_simps [simp]:
  "further_digit (True, c) = [CHR ''_'', c]" "further_digit (False, c) = [c]"
  by (simp_all add: further_digit_def)

lemma parse_digits_SomeD:
  "parse_digits acc s = Some v \<Longrightarrow>
     \<exists>ds. s = concat (map further_digit ds) \<and> (\<forall>x \<in> set ds. is_digit (snd x))"
proof (induction acc s arbitrary: v rule: parse_digits.induct)
  case (1 acc)
  have "[] = concat (map further_digit []) \<and> (\<forall>x \<in> set []. is_digit (snd x))"
    by simp
  then show ?case by blast
next
  case (2 acc c)
  then have "is_digit c" by (simp split: if_splits)
  then have "[c] = concat (map further_digit [(False, c)]) \<and>
             (\<forall>x \<in> set [(False, c)]. is_digit (snd x))"
    by simp
  then show ?case by blast
next
  case (3 acc c d ds)
  show ?case
  proof (cases "is_digit c")
    case True
    with "3.prems" have "parse_digits (10 * acc + digit_val c) (d # ds) = Some v"
      by simp
    from "3.IH"(1) [OF True this] obtain ds0 where
      ds0: "d # ds = concat (map further_digit ds0)" "\<forall>x \<in> set ds0. is_digit (snd x)"
      by blast
    have "c # d # ds = concat (map further_digit ((False, c) # ds0)) \<and>
          (\<forall>x \<in> set ((False, c) # ds0). is_digit (snd x))"
      using ds0 True by simp
    then show ?thesis by blast
  next
    case False
    with "3.prems" have u: "c = CHR ''_'' \<and> is_digit d"
      and p: "parse_digits (10 * acc + digit_val d) ds = Some v"
      by (simp_all split: if_splits)
    from "3.IH"(2) [OF False u p] obtain ds0 where
      ds0: "ds = concat (map further_digit ds0)" "\<forall>x \<in> set ds0. is_digit (snd x)"
      by blast
    have "c # d # ds = concat (map further_digit ((True, d) # ds0)) \<and>
          (\<forall>x \<in> set ((True, d) # ds0). is_digit (snd x))"
      using ds0 u by simp
    then show ?thesis by blast
  qed
qed

lemma parse_digits_accepts:
  "\<forall>x \<in> set ds. is_digit (snd x) \<Longrightarrow>
     \<exists>v. parse_digits acc (concat (map further_digit ds)) = Some v"
proof (induction ds arbitrary: acc)
  case Nil
  then show ?case by simp
next
  case (Cons x ds)
  obtain u c where x: "x = (u, c)" by (cases x)
  have c: "is_digit c" using Cons.prems x by simp
  have rest: "\<exists>v. parse_digits a (concat (map further_digit ds)) = Some v" for a
    using Cons.IH Cons.prems by simp
  show ?case
  proof (cases u)
    case True
    then show ?thesis
      using rest c by (simp add: x)
  next
    case False
    let ?rest = "concat (map further_digit ds)"
    have split: "concat (map further_digit (x # ds)) = c # ?rest"
      using False by (simp add: x)
    show ?thesis
    proof (cases ?rest)
      case Nil
      have "parse_digits acc (c # ?rest) = Some (10 * acc + digit_val c)"
        unfolding Nil using c by simp
      then show ?thesis unfolding split by blast
    next
      case (Cons r rs)
      have "parse_digits acc (c # ?rest) = parse_digits (10 * acc + digit_val c) ?rest"
        unfolding Cons using c by simp
      then show ?thesis
        unfolding split using rest [of "10 * acc + digit_val c"] by simp
    qed
  qed
qed

text \<open>\<open>strip\<close> removes the white space at both ends and nothing else.\<close>

lemma strip_frame:
  assumes "\<forall>c \<in> set l. is_space c" and "\<forall>c \<in> set r. is_space c"
    and "m \<noteq> []" and "\<not> is_space (hd m)" and "\<not> is_space (last m)"
  shows "strip (l @ m @ r) = m"
proof -
  have "dropWhile is_space (l @ m @ r) = dropWhile is_space (m @ r)"
    using assms(1) by (simp add: dropWhile_append2)
  also have "\<dots> = m @ r"
    using assms(3,4) by (cases m) simp_all
  finally have 1: "dropWhile is_space (l @ m @ r) = m @ r" .
  have "dropWhile is_space (rev r @ rev m) = dropWhile is_space (rev m)"
    by (rule dropWhile_append2) (use assms(2) in auto)
  then have "dropWhile is_space (rev (m @ r)) = dropWhile is_space (rev m)"
    by simp
  also have "\<dots> = rev m"
    using assms(3,5) by (cases "rev m") (simp_all add: last_rev [symmetric] del: last_rev)
  finally show ?thesis
    by (simp add: strip_def 1)
qed

lemma strip_decomp:
  "\<exists>l r. s = l @ strip s @ r \<and> (\<forall>c \<in> set l. is_space c) \<and> (\<forall>c \<in> set r. is_space c)"
proof -
  let ?l = "takeWhile is_space s"
  let ?t = "dropWhile is_space s"
  let ?r = "rev (takeWhile is_space (rev ?t))"
  have "?t = rev (takeWhile is_space (rev ?t) @ dropWhile is_space (rev ?t))"
    by (simp only: takeWhile_dropWhile_id rev_rev_ident)
  then have t: "?t = strip s @ ?r"
    by (simp only: rev_append strip_def)
  have "s = ?l @ ?t" by simp
  with t have "s = ?l @ strip s @ ?r" by simp
  moreover have "\<forall>c \<in> set ?l. is_space c" by (auto dest: set_takeWhileD)
  moreover have "\<forall>c \<in> set ?r. is_space c" by (auto dest: set_takeWhileD)
  ultimately show ?thesis by blast
qed

text \<open>
  \<^verbatim>\<open>int\<close> gives a number exactly on the integer literals that have no more digits
  than the limit allows.
\<close>

lemma last_digits:
  assumes "is_digit d" and "\<forall>x \<in> set ds. is_digit (snd x)"
  shows "is_digit (last (d # concat (map further_digit ds)))"
proof (cases ds rule: rev_cases)
  case Nil
  then show ?thesis using assms(1) by simp
next
  case (snoc ds0 x)
  then have "last (d # concat (map further_digit ds)) = snd x"
    by (simp add: further_digit_def)
  then show ?thesis using assms(2) snoc by simp
qed

lemma parse_body_iff:
  "(\<exists>v. parse_body m sign body = Some v) \<longleftrightarrow>
     (\<exists>d ds. body = d # concat (map further_digit ds) \<and> is_digit d \<and>
        (\<forall>x \<in> set ds. is_digit (snd x)) \<and>
        (m = 0 \<or> length (filter is_digit body) \<le> m))"
proof
  assume "\<exists>v. parse_body m sign body = Some v"
  then obtain v where v: "parse_body m sign body = Some v" ..
  then obtain d rest where body: "body = d # rest"
    by (cases body) (simp_all add: parse_body_def)
  from v body have d: "is_digit d" and lim: "m = 0 \<or> length (filter is_digit body) \<le> m"
    and "\<exists>v'. parse_digits (digit_val d) rest = Some v'"
    by (auto simp: parse_body_def split: if_splits)
  then obtain ds where "rest = concat (map further_digit ds)" "\<forall>x \<in> set ds. is_digit (snd x)"
    using parse_digits_SomeD by blast
  with body d lim show "\<exists>d ds. body = d # concat (map further_digit ds) \<and> is_digit d \<and>
        (\<forall>x \<in> set ds. is_digit (snd x)) \<and> (m = 0 \<or> length (filter is_digit body) \<le> m)"
    by blast
next
  assume "\<exists>d ds. body = d # concat (map further_digit ds) \<and> is_digit d \<and>
        (\<forall>x \<in> set ds. is_digit (snd x)) \<and> (m = 0 \<or> length (filter is_digit body) \<le> m)"
  then obtain d ds where body: "body = d # concat (map further_digit ds)" and d: "is_digit d"
    and ds: "\<forall>x \<in> set ds. is_digit (snd x)"
    and lim: "m = 0 \<or> length (filter is_digit body) \<le> m"
    by blast
  obtain v where "parse_digits (digit_val d) (concat (map further_digit ds)) = Some v"
    using parse_digits_accepts [OF ds] by blast
  then have "parse_body m sign body = Some (sign * v)"
    using d lim by (auto simp: parse_body_def body)
  then show "\<exists>v. parse_body m sign body = Some v" ..
qed

lemma py_int_strip_iff:
  "(\<exists>v. py_int m s = Some v) \<longleftrightarrow>
     (\<exists>sg body. strip s = sg @ body \<and> sg \<in> {[], ''+'', ''-''} \<and>
        (\<exists>v. parse_body m 1 body = Some v))"
proof
  assume "\<exists>v. py_int m s = Some v"
  then obtain v where v: "py_int m s = Some v" ..
  then obtain c cs where st: "strip s = c # cs"
    by (cases "strip s") (simp_all add: py_int_def)
  have sign: "(\<exists>v. parse_body m 1 body = Some v) = (\<exists>v. parse_body m (- 1) body = Some v)" for body
    by (simp only: parse_body_iff)
  consider "c = CHR ''+''" | "c = CHR ''-''" | "c \<noteq> CHR ''+''" "c \<noteq> CHR ''-''" by blast
  then show "\<exists>sg body. strip s = sg @ body \<and> sg \<in> {[], ''+'', ''-''} \<and>
        (\<exists>v. parse_body m 1 body = Some v)"
  proof cases
    case 1
    then have "strip s = ''+'' @ cs \<and> ''+'' \<in> {[], ''+'', ''-''} \<and> (\<exists>v. parse_body m 1 cs = Some v)"
      using v st by (simp add: py_int_def)
    then show ?thesis by blast
  next
    case 2
    then have "strip s = ''-'' @ cs \<and> ''-'' \<in> {[], ''+'', ''-''} \<and> (\<exists>v. parse_body m 1 cs = Some v)"
      using v st sign [of cs] by (simp add: py_int_def)
    then show ?thesis by blast
  next
    case 3
    then have "strip s = [] @ c # cs \<and> [] \<in> {[], ''+'', ''-''} \<and>
               (\<exists>v. parse_body m 1 (c # cs) = Some v)"
      using v st by (simp add: py_int_def)
    then show ?thesis by blast
  qed
next
  assume "\<exists>sg body. strip s = sg @ body \<and> sg \<in> {[], ''+'', ''-''} \<and>
        (\<exists>v. parse_body m 1 body = Some v)"
  then obtain sg body v where st: "strip s = sg @ body" and sg: "sg \<in> {[], ''+'', ''-''}"
    and v: "parse_body m 1 body = Some v"
    by blast
  have sign: "\<exists>v. parse_body m (- 1) body = Some v"
    using v by (simp only: parse_body_iff [of m "- 1"] parse_body_iff [of m 1, symmetric]) blast
  obtain d rest where body: "body = d # rest" and d: "is_digit d"
    using v parse_body_iff [of m 1 body] by blast
  have d_sign: "d \<noteq> CHR ''+''" "d \<noteq> CHR ''-''"
    using d by auto
  from sg consider "sg = []" | "sg = ''+''" | "sg = ''-''" by blast
  then show "\<exists>v. py_int m s = Some v"
  proof cases
    case 1
    then show ?thesis using st v body d_sign by (simp add: py_int_def)
  next
    case 2
    then show ?thesis using st v by (simp add: py_int_def)
  next
    case 3
    then show ?thesis using st sign by (simp add: py_int_def)
  qed
qed

lemma no_digits_in_frame:
  assumes "\<forall>c \<in> set l. is_space c" and "\<forall>c \<in> set r. is_space c" and "sg \<in> {[], ''+'', ''-''}"
  shows "filter is_digit (l @ sg @ body @ r) = filter is_digit body"
proof -
  have "filter is_digit l = []" "filter is_digit r = []"
    using assms(1,2) digit_not_space by (auto simp: filter_empty_conv)
  moreover have "filter is_digit sg = []"
    using assms(3) by auto
  ultimately show ?thesis by simp
qed

lemma digit_count_filter: "digit_count s = length (filter is_digit s)"
proof -
  have "is_digit = (\<lambda>c. c \<in> decimal_digits)"
    by (rule ext) (rule is_digit_iff)
  then show ?thesis by (simp add: digit_count_def)
qed

lemma int_literalI:
  assumes "s = l @ sg @ d # concat (map further_digit ds) @ r"
    and "\<forall>c \<in> set l. is_space c" and "\<forall>c \<in> set r. is_space c"
    and "sg \<in> {[], ''+'', ''-''}" and "is_digit d" and "\<forall>x \<in> set ds. is_digit (snd x)"
  shows "int_literal s"
proof -
  have "set l \<subseteq> white_space" "set r \<subseteq> white_space"
    using assms(2,3) is_space_iff by blast+
  moreover have "d \<in> decimal_digits"
    using assms(5) is_digit_iff by blast
  moreover have "snd ` set ds \<subseteq> decimal_digits"
    using assms(6) is_digit_iff by blast
  ultimately show ?thesis
    unfolding int_literal_def using assms(1,4) by blast
qed

lemma int_literalE:
  assumes "int_literal s"
  obtains l sg d ds r where "s = l @ sg @ d # concat (map further_digit ds) @ r"
    and "\<forall>c \<in> set l. is_space c" and "\<forall>c \<in> set r. is_space c"
    and "sg \<in> {[], ''+'', ''-''}" and "is_digit d" and "\<forall>x \<in> set ds. is_digit (snd x)"
proof -
  from assms obtain l sg d ds r where s: "s = l @ sg @ d # concat (map further_digit ds) @ r"
    and l: "set l \<subseteq> white_space" and r: "set r \<subseteq> white_space"
    and sg: "sg \<in> {[], ''+'', ''-''}"
    and d: "d \<in> decimal_digits" and ds: "snd ` set ds \<subseteq> decimal_digits"
    unfolding int_literal_def by blast
  have "\<forall>c \<in> set l. is_space c" "\<forall>c \<in> set r. is_space c"
    using l r is_space_iff by blast+
  moreover have "is_digit d"
    using d is_digit_iff by blast
  moreover have "\<forall>x \<in> set ds. is_digit (snd x)"
    using ds is_digit_iff by blast
  ultimately show thesis
    using that s sg by blast
qed

lemma py_int_accepts_iff:
  "(\<exists>v. py_int m s = Some v) \<longleftrightarrow> int_literal s \<and> (m = 0 \<or> digit_count s \<le> m)"
proof
  assume "\<exists>v. py_int m s = Some v"
  then obtain sg body where st: "strip s = sg @ body" and sg: "sg \<in> {[], ''+'', ''-''}"
    and "\<exists>v. parse_body m 1 body = Some v"
    using py_int_strip_iff [of m s] by blast
  then obtain d ds where body: "body = d # concat (map further_digit ds)" and d: "is_digit d"
    and ds: "\<forall>x \<in> set ds. is_digit (snd x)"
    and lim: "m = 0 \<or> length (filter is_digit body) \<le> m"
    using parse_body_iff [of m 1 body] by blast
  obtain l r where s: "s = l @ strip s @ r"
    and l: "\<forall>c \<in> set l. is_space c" and r: "\<forall>c \<in> set r. is_space c"
    using strip_decomp [of s] by blast
  have s': "s = l @ sg @ d # concat (map further_digit ds) @ r"
    using s [unfolded st body] by simp
  have "int_literal s"
    using s' l r sg d ds by (rule int_literalI)
  moreover have "s = l @ sg @ body @ r"
    using s' body by simp
  then have "filter is_digit s = filter is_digit body"
    using no_digits_in_frame [OF l r sg, of body] by simp
  ultimately show "int_literal s \<and> (m = 0 \<or> digit_count s \<le> m)"
    using lim by (simp add: digit_count_filter)
next
  assume a: "int_literal s \<and> (m = 0 \<or> digit_count s \<le> m)"
  then have "int_literal s" ..
  then obtain l sg d ds r where s: "s = l @ sg @ d # concat (map further_digit ds) @ r"
    and l: "\<forall>c \<in> set l. is_space c" and r: "\<forall>c \<in> set r. is_space c"
    and sg: "sg \<in> {[], ''+'', ''-''}" and d: "is_digit d"
    and ds: "\<forall>x \<in> set ds. is_digit (snd x)"
    by (rule int_literalE)
  define body where "body = d # concat (map further_digit ds)"
  have s2: "s = l @ (sg @ body) @ r"
    using s by (simp add: body_def)
  have ne: "sg @ body \<noteq> []"
    by (simp add: body_def)
  have "hd (sg @ body) = d \<or> hd (sg @ body) = CHR ''+'' \<or> hd (sg @ body) = CHR ''-''"
    using sg by (auto simp: body_def)
  then have hd: "\<not> is_space (hd (sg @ body))"
    using digit_not_space [OF d] by auto
  have "last (sg @ body) = last body"
    by (simp add: body_def)
  then have last: "\<not> is_space (last (sg @ body))"
    using last_digits [OF d ds] digit_not_space by (simp add: body_def)
  have st: "strip s = sg @ body"
    unfolding s2 using l r ne hd last by (rule strip_frame)
  have "s = l @ sg @ body @ r"
    using s2 by simp
  then have "filter is_digit s = filter is_digit body"
    using no_digits_in_frame [OF l r sg, of body] by simp
  then have "m = 0 \<or> length (filter is_digit body) \<le> m"
    using a by (simp add: digit_count_filter)
  then have "\<exists>d ds. body = d # concat (map further_digit ds) \<and> is_digit d \<and>
        (\<forall>x \<in> set ds. is_digit (snd x)) \<and> (m = 0 \<or> length (filter is_digit body) \<le> m)"
    using d ds body_def by blast
  then have "\<exists>v. parse_body m 1 body = Some v"
    by (simp only: parse_body_iff)
  then have "\<exists>sg body. strip s = sg @ body \<and> sg \<in> {[], ''+'', ''-''} \<and>
        (\<exists>v. parse_body m 1 body = Some v)"
    using st sg by blast
  then show "\<exists>v. py_int m s = Some v"
    by (simp only: py_int_strip_iff)
qed

text \<open>
  Some conversions: a no-break space before the number, a sign and underscores, a
  letter among the digits, letters after the digits, and four digits with a limit of
  three.
\<close>

lemma py_int_examples:
  "py_int 4300 [CHR 0xA0, CHR ''1'', CHR ''2''] = Some 12"
  "py_int 4300 '' -0_1_2 '' = Some (- 12)"
  "py_int 4300 ''56x8'' = None"
  "py_int 4300 ''9012zz'' = None"
  "py_int 4300 ''1__2'' = None"
  "py_int 3 ''0012'' = None"
  by code_simp+

text \<open>
  \<^verbatim>\<open>split\<close> and \<^verbatim>\<open>join\<close>: every option is the join of its pieces, which have no
  comma, and the pieces of a join of strings without a comma are these strings.
\<close>

lemma split_comma_last: "CHR '','' \<notin> set w \<Longrightarrow> split_comma cur w = [rev cur @ w]"
  by (induction w arbitrary: cur) auto

lemma split_comma_piece:
  "CHR '','' \<notin> set w \<Longrightarrow>
     split_comma cur (w @ CHR '','' # rest) = (rev cur @ w) # split_comma [] rest"
  by (induction w arbitrary: cur) auto

lemma split_comma_not_Nil: "split_comma cur s \<noteq> []"
  by (induction s arbitrary: cur) simp_all

lemma split_comma_join:
  "ws \<noteq> [] \<Longrightarrow> \<forall>w \<in> set ws. CHR '','' \<notin> set w \<Longrightarrow> split_comma [] (join_comma ws) = ws"
proof (induction ws rule: join_comma.induct)
  case 1
  then show ?case by simp
next
  case (2 w)
  then show ?case by (simp add: split_comma_last)
next
  case (3 w v ws)
  then show ?case by (simp add: split_comma_piece)
qed

lemma join_comma_Cons:
  "join_comma (w # ws) = (if ws = [] then w else w @ CHR '','' # join_comma ws)"
  by (cases ws) simp_all

lemma join_split_comma: "join_comma (split_comma cur s) = rev cur @ s"
proof (induction s arbitrary: cur)
  case Nil
  then show ?case by simp
next
  case (Cons c s)
  show ?case
    using Cons.IH [of "[]"] Cons.IH [of "c # cur"]
    by (simp add: join_comma_Cons split_comma_not_Nil)
qed

lemma split_comma_no_comma:
  "CHR '','' \<notin> set cur \<Longrightarrow> \<forall>w \<in> set (split_comma cur s). CHR '','' \<notin> set w"
proof (induction s arbitrary: cur)
  case Nil
  then show ?case by simp
next
  case (Cons c s)
  show ?case
  proof (cases "c = CHR '',''")
    case True
    then show ?thesis
      using Cons.IH [of "[]"] Cons.prems by simp
  next
    case False
    then show ?thesis
      using Cons.IH [of "c # cur"] Cons.prems by simp
  qed
qed

text \<open>
  Line 178 raises \<^verbatim>\<open>ValueError\<close> exactly when one of the pieces is not an integer
  literal or has more digits than the limit allows.
\<close>

lemma int_all_None: "int_all m ws = None \<longleftrightarrow> (\<exists>w \<in> set ws. py_int m w = None)"
  by (induction ws) (auto split: option.splits)

lemma py_int_None_iff:
  "py_int m w = None \<longleftrightarrow> \<not> int_literal w \<or> (m \<noteq> 0 \<and> m < digit_count w)"
  using py_int_accepts_iff [of m w] by (cases "py_int m w") auto

lemma parse_sequence_None_iff:
  assumes "ws \<noteq> []" and "\<forall>w \<in> set ws. CHR '','' \<notin> set w"
  shows "parse_sequence m (join_comma ws) = None \<longleftrightarrow>
           (\<exists>w \<in> set ws. \<not> int_literal w \<or> (m \<noteq> 0 \<and> m < digit_count w))"
  by (simp add: parse_sequence_def split_comma_join [OF assms] int_all_None py_int_None_iff)

lemma not_int_literal_empty: "\<not> int_literal []"
  by (simp add: int_literal_def)

text \<open>
  C8. The \<^verbatim>\<open>--sequence\<close> option is the pieces \<open>ws\<close> with commas between them. When
  one of the pieces is not an integer literal, or when the option is the empty string,
  \<open>main\<close> ends with \<^verbatim>\<open>SystemExit\<close> and has done nothing before: the trace is
  empty (no firewall command, no socket, no knock) and so is the dictionary. This
  holds whatever the limit on the digits, the firewall, the sockets and the knocks
  are.
\<close>

theorem invalid_sequence_is_fatal:
  assumes "(\<exists>ws. sequence_arg a = join_comma ws \<and> ws \<noteq> [] \<and>
              (\<forall>w \<in> set ws. CHR '','' \<notin> set w) \<and> (\<exists>w \<in> set ws. \<not> int_literal w)) \<or>
           sequence_arg a = []"
  shows "main a e = (Some (SystemExit ''Invalid sequence. Use comma-separated integers.''),
                     \<lparr>knock_attempts = [], trace = []\<rparr>)"
proof -
  have "\<exists>ws. sequence_arg a = join_comma ws \<and> ws \<noteq> [] \<and>
          (\<forall>w \<in> set ws. CHR '','' \<notin> set w) \<and> (\<exists>w \<in> set ws. \<not> int_literal w)"
  proof (cases "sequence_arg a = []")
    case True
    then have "sequence_arg a = join_comma [[]] \<and> [[]] \<noteq> [] \<and>
          (\<forall>w \<in> set [[]]. CHR '','' \<notin> set w) \<and> (\<exists>w \<in> set [[]]. \<not> int_literal w)"
      by (simp add: not_int_literal_empty)
    then show ?thesis by (rule exI)
  next
    case False
    with assms show ?thesis by simp
  qed
  then obtain ws where ws: "sequence_arg a = join_comma ws" "ws \<noteq> []"
    "\<forall>w \<in> set ws. CHR '','' \<notin> set w" and bad: "\<exists>w \<in> set ws. \<not> int_literal w"
    by (elim exE conjE)
  have "parse_sequence (int_max_str_digits e) (sequence_arg a) = None"
    unfolding ws(1) parse_sequence_None_iff [OF ws(2,3)] using bad by blast
  then show ?thesis by (simp add: main_def)
qed

lemma not_literal_abc: "\<not> int_literal ''abc''"
proof -
  have "py_int 0 ''abc'' = None" by code_simp
  then show ?thesis by (simp add: py_int_None_iff)
qed

text \<open>The options \<^verbatim>\<open>1234,abc\<close> and the empty string.\<close>

theorem invalid_sequence_is_fatal_witness:
  "main \<lparr>sequence_arg = ''1234,abc'', protected_port_arg = 2222, window_arg = 10\<rparr>
        \<lparr>int_max_str_digits = 4300, close_result = Completed, bind_ok = (\<lambda>i. True),
         schedule = [\<lparr>accepts = [Connection ''10.0.0.5'' 0 Completed], sweep_time = 0\<rparr>]\<rparr> =
     (Some (SystemExit ''Invalid sequence. Use comma-separated integers.''),
      \<lparr>knock_attempts = [], trace = []\<rparr>) \<and>
   main \<lparr>sequence_arg = [], protected_port_arg = 2222, window_arg = 10\<rparr>
        \<lparr>int_max_str_digits = 4300, close_result = Completed, bind_ok = (\<lambda>i. True),
         schedule = [\<lparr>accepts = [Connection ''10.0.0.5'' 0 Completed], sweep_time = 0\<rparr>]\<rparr> =
     (Some (SystemExit ''Invalid sequence. Use comma-separated integers.''),
      \<lparr>knock_attempts = [], trace = []\<rparr>)"
proof -
  have pieces: "\<exists>ws. ''1234,abc'' = join_comma ws \<and> ws \<noteq> [] \<and>
          (\<forall>w \<in> set ws. CHR '','' \<notin> set w) \<and> (\<exists>w \<in> set ws. \<not> int_literal w)"
    by (rule exI [of _ "[''1234'', ''abc'']"]) (simp add: not_literal_abc)
  show ?thesis
    using invalid_sequence_is_fatal
            [of "\<lparr>sequence_arg = ''1234,abc'', protected_port_arg = 2222, window_arg = 10\<rparr>"
                "\<lparr>int_max_str_digits = 4300, close_result = Completed, bind_ok = (\<lambda>i. True),
                  schedule = [\<lparr>accepts = [Connection ''10.0.0.5'' 0 Completed], sweep_time = 0\<rparr>]\<rparr>"]
          invalid_sequence_is_fatal
            [of "\<lparr>sequence_arg = [], protected_port_arg = 2222, window_arg = 10\<rparr>"
                "\<lparr>int_max_str_digits = 4300, close_result = Completed, bind_ok = (\<lambda>i. True),
                  schedule = [\<lparr>accepts = [Connection ''10.0.0.5'' 0 Completed], sweep_time = 0\<rparr>]\<rparr>"]
          pieces
    by simp
qed

subsection \<open>A knock that completes the list\<close>

text \<open>
  When the list of the address has the length of the sequence after lines 98-115,
  the \<^verbatim>\<open>ACCEPT\<close> command is run once if the list is the sequence, and not at all
  otherwise. The entry is deleted when the list is not the sequence, and when it is
  and \<^verbatim>\<open>open_protected_port\<close> returns. When \<^verbatim>\<open>subprocess.run\<close> raises an exception
  that \<^verbatim>\<open>open_protected_port\<close> does not catch, line 127 is skipped and the entry
  stays, with the complete list.
\<close>

lemma gateway_calls_append [simp]:
  "gateway_calls (xs @ ys) = gateway_calls xs @ gateway_calls ys"
  by (simp add: gateway_calls_def)

lemma gateway_calls_record_knock:
  "gateway_calls (trace (record_knock w ip p t s)) = gateway_calls (trace s)"
  by (simp add: record_knock_def Let_def gateway_calls_def)

lemma check_sequence_complete:
  assumes "map_of (knock_attempts s) ip = Some d" and "length (ports d) = length sequence"
  shows "gateway_calls (trace (snd (check_sequence sequence pp ip r s))) =
           gateway_calls (trace s) @ (if ports d = sequence then [Iptables_ACCEPT pp ip] else [])"
    and "r \<noteq> OtherException \<or> ports d \<noteq> sequence \<Longrightarrow>
           fst (check_sequence sequence pp ip r s) = None \<and>
           knock_attempts (snd (check_sequence sequence pp ip r s)) =
             AList.delete ip (knock_attempts s)"
    and "r = OtherException \<Longrightarrow> ports d = sequence \<Longrightarrow>
           fst (check_sequence sequence pp ip r s) = Some UncaughtException \<and>
           knock_attempts (snd (check_sequence sequence pp ip r s)) = knock_attempts s"
  using assms
  by (cases r; simp add: check_sequence_def open_protected_port_def Let_def gateway_calls_def)+

lemma complete_list_resolved:
  assumes "map_of (knock_attempts (record_knock w ip p t s)) ip = Some d"
    and "length (ports d) = length sequence"
  shows "gateway_calls (trace (poll_socket sequence w pp p (Connection ip t r) s)) =
           gateway_calls (trace s) @ (if ports d = sequence then [Iptables_ACCEPT pp ip] else [])"
    and "r \<noteq> OtherException \<or> ports d \<noteq> sequence \<Longrightarrow>
           knock_attempts (poll_socket sequence w pp p (Connection ip t r) s) =
             AList.delete ip (knock_attempts s)"
    and "r = OtherException \<Longrightarrow> ports d = sequence \<Longrightarrow>
           knock_attempts (poll_socket sequence w pp p (Connection ip t r) s) =
             knock_attempts (record_knock w ip p t s)"
proof -
  let ?s1 = "record_knock w ip p t (s\<lparr>trace := trace s @ [LogMsg INFO (MsgKnock ip p)]\<rparr>)"
  let ?c = "check_sequence sequence pp ip r ?s1"
  have m: "map_of (knock_attempts ?s1) ip = Some d"
    using assms(1) by simp
  have ps: "poll_socket sequence w pp p (Connection ip t r) s =
          (case fst ?c of None \<Rightarrow> snd ?c
           | Some e \<Rightarrow> (snd ?c)\<lparr>trace := trace (snd ?c) @ [LogMsg ERROR MsgError]\<rparr>)"
    by (simp add: poll_socket_Connection split: prod.splits option.splits)
  have g1: "gateway_calls (trace ?s1) = gateway_calls (trace s)"
    by (simp add: gateway_calls_record_knock) (simp add: gateway_calls_def)
  show "gateway_calls (trace (poll_socket sequence w pp p (Connection ip t r) s)) =
           gateway_calls (trace s) @ (if ports d = sequence then [Iptables_ACCEPT pp ip] else [])"
    using check_sequence_complete(1) [OF m assms(2), of pp r] g1
    by (simp add: ps split: option.splits) (simp add: gateway_calls_def)
  show "knock_attempts (poll_socket sequence w pp p (Connection ip t r) s) =
             AList.delete ip (knock_attempts s)"
    if "r \<noteq> OtherException \<or> ports d \<noteq> sequence"
    using check_sequence_complete(2) [OF m assms(2) that, of pp]
    by (simp add: ps knock_attempts_record_knock AList.delete_update_same)
  show "knock_attempts (poll_socket sequence w pp p (Connection ip t r) s) =
             knock_attempts (record_knock w ip p t s)"
    if "r = OtherException" and "ports d = sequence"
    using check_sequence_complete(3) [OF m assms(2) that, of pp]
    by (simp add: ps)
qed

lemma poll_socket_collecting:
  assumes "map_of (knock_attempts (record_knock w ip p t s)) ip = Some d"
    and "length (ports d) \<noteq> length sequence"
  shows "poll_socket sequence w pp p (Connection ip t r) s =
           (record_knock w ip p t (s\<lparr>trace := trace s @ [LogMsg INFO (MsgKnock ip p)]\<rparr>))
             \<lparr>trace := trace (record_knock w ip p t
                                (s\<lparr>trace := trace s @ [LogMsg INFO (MsgKnock ip p)]\<rparr>)) @
                       [LogMsg INFO (MsgSequence ip (ports d))]\<rparr>"
proof -
  let ?s1 = "record_knock w ip p t (s\<lparr>trace := trace s @ [LogMsg INFO (MsgKnock ip p)]\<rparr>)"
  have m: "map_of (knock_attempts ?s1) ip = Some d"
    using assms(1) by simp
  show ?thesis
    using check_sequence_collecting [OF m assms(2), of pp r]
    by (simp add: poll_socket_Connection)
qed

lemma knock_attempts_poll_socket_returned:
  assumes "r \<noteq> OtherException"
  shows "knock_attempts (poll_socket sequence w pp p (Connection ip t r) s) =
           (if length (ports (updated_attempt w p t (map_of (knock_attempts s) ip))) =
               length sequence
            then AList.delete ip (knock_attempts s)
            else AList.update ip (updated_attempt w p t (map_of (knock_attempts s) ip))
                   (knock_attempts s))"
proof -
  let ?d = "updated_attempt w p t (map_of (knock_attempts s) ip)"
  have m: "map_of (knock_attempts (record_knock w ip p t s)) ip = Some ?d"
    by (rule map_of_record_knock_same)
  show ?thesis
  proof (cases "length (ports ?d) = length sequence")
    case True
    then show ?thesis
      using complete_list_resolved(2) [OF m True, of r pp] assms by simp
  next
    case False
    then show ?thesis
      using poll_socket_collecting [OF m False, of pp r]
      by (simp add: knock_attempts_record_knock)
  qed
qed

subsection \<open>Runs in which every grant returns\<close>

text \<open>
  The keys of the dictionary are distinct in every run. In a run in which no
  \<^verbatim>\<open>subprocess.run\<close> of a grant raises an exception other than the two that
  \<^verbatim>\<open>open_protected_port\<close> catches, every list in the dictionary is strictly
  shorter than the sequence after every turn of the loop.
\<close>

lemma distinct_knock_attempts:
  "distinct (map fst (knock_attempts (listen_for_knocks sequence w pp ok sched tr)))"
proof (rule listen_for_knocks_invariant [where A = "\<lambda>a. True"])
  fix p a and s :: state
  assume "distinct (map fst (knock_attempts s))"
  then show "distinct (map fst (knock_attempts (poll_socket sequence w pp p a s)))"
    using knock_attempts_poll_socket [of sequence w pp p a s]
    by (auto simp: AList.distinct_update AList.distinct_delete)
qed (simp_all add: distinct_map_filter)

lemma lists_shorter_than_sequence:
  assumes "\<forall>it \<in> set sched. \<forall>a \<in> set (accepts it). \<forall>ip t. a \<noteq> Connection ip t OtherException"
  shows "\<forall>(ip, d) \<in> set (knock_attempts (listen_for_knocks sequence w pp ok sched tr)).
           length (ports d) < length sequence"
proof (rule listen_for_knocks_invariant
         [where A = "\<lambda>a. \<forall>ip t. a \<noteq> Connection ip t OtherException"])
  fix p a and s :: state
  assume inv: "\<forall>(ip, d) \<in> set (knock_attempts s). length (ports d) < length sequence"
    and p: "p \<in> set sequence"
    and a: "\<forall>ip t. a \<noteq> Connection ip t OtherException"
  show "\<forall>(ip, d) \<in> set (knock_attempts (poll_socket sequence w pp p a s)).
          length (ports d) < length sequence"
  proof (cases a)
    case (Connection ip t r)
    let ?d = "updated_attempt w p t (map_of (knock_attempts s) ip)"
    have r: "r \<noteq> OtherException"
      using a Connection by simp
    have le: "length (ports ?d) \<le> length sequence"
    proof (cases "map_of (knock_attempts s) ip")
      case None
      have "length sequence \<noteq> 0" using p by auto
      then show ?thesis using None by (simp add: updated_attempt_def Suc_leI)
    next
      case (Some d)
      then have "(ip, d) \<in> set (knock_attempts s)" by (rule map_of_SomeD)
      with inv have "length (ports d) < length sequence" by auto
      then show ?thesis using Some by (simp add: updated_attempt_def)
    qed
    show ?thesis
    proof (cases "length (ports ?d) = length sequence")
      case True
      then have "knock_attempts (poll_socket sequence w pp p a s) =
                   AList.delete ip (knock_attempts s)"
        using knock_attempts_poll_socket_returned [OF r, of sequence w pp p ip t s] Connection
        by simp
      then show ?thesis
        using inv by (auto simp: AList.delete_eq)
    next
      case False
      then have "knock_attempts (poll_socket sequence w pp p a s) =
                   AList.update ip ?d (knock_attempts s)"
        using knock_attempts_poll_socket_returned [OF r, of sequence w pp p ip t s] Connection
        by simp
      then show ?thesis
        using inv le False set_update_subset [of ip ?d "knock_attempts s"] by auto
    qed
  qed (use inv in \<open>simp_all add: poll_socket_def\<close>)
qed (use assms in auto)

subsection \<open>A grant that raises an uncaught exception\<close>

text \<open>
  C1. The sequence is 1234, 5678, 9012 and the window is 10 seconds. The address
  10.0.0.5 knocks on the three ports in order, at 0, 1 and 2, and the
  \<^verbatim>\<open>subprocess.run\<close> of the grant raises an exception that is neither
  \<^verbatim>\<open>CalledProcessError\<close> nor \<^verbatim>\<open>FileNotFoundError\<close>. The \<^verbatim>\<open>ACCEPT\<close> command
  has been run once, for this address, but after the turn of the loop with the third
  knock the entry of the address is still in the dictionary, with the complete list
  \<open>[1234, 5678, 9012]\<close>: it has not been removed in the step that completed it.
\<close>

theorem complete_session_kept_after_uncaught_exception:
  "knock_attempts (listen_for_knocks [1234, 5678, 9012] 10 2222 (\<lambda>i. True)
     [\<lparr>accepts = [Connection ''10.0.0.5'' 0 Completed], sweep_time = 0\<rparr>,
      \<lparr>accepts = [Timeout, Connection ''10.0.0.5'' 1 Completed], sweep_time = 1\<rparr>,
      \<lparr>accepts = [Timeout, Timeout, Connection ''10.0.0.5'' 2 OtherException],
         sweep_time = 2\<rparr>] []) =
     [(''10.0.0.5'', \<lparr>ports = [1234, 5678, 9012], start_time = 0\<rparr>)] \<and>
   gateway_calls (trace (listen_for_knocks [1234, 5678, 9012] 10 2222 (\<lambda>i. True)
     [\<lparr>accepts = [Connection ''10.0.0.5'' 0 Completed], sweep_time = 0\<rparr>,
      \<lparr>accepts = [Timeout, Connection ''10.0.0.5'' 1 Completed], sweep_time = 1\<rparr>,
      \<lparr>accepts = [Timeout, Timeout, Connection ''10.0.0.5'' 2 OtherException],
         sweep_time = 2\<rparr>] [])) =
     [Iptables_ACCEPT 2222 ''10.0.0.5'']"
  by (simp add: listen_for_knocks_def step_defs iter_defs gateway_calls_def)

text \<open>
  C2. The same three knocks, and a fourth knock of the same address on 1234, at 3,
  still within the window. The complete list that the third knock left is extended:
  the dictionary then holds, for 10.0.0.5, a list of four ports, one more than the
  sequence has.
\<close>

theorem list_longer_than_sequence_after_uncaught_exception:
  "knock_attempts (listen_for_knocks [1234, 5678, 9012] 10 2222 (\<lambda>i. True)
     [\<lparr>accepts = [Connection ''10.0.0.5'' 0 Completed], sweep_time = 0\<rparr>,
      \<lparr>accepts = [Timeout, Connection ''10.0.0.5'' 1 Completed], sweep_time = 1\<rparr>,
      \<lparr>accepts = [Timeout, Timeout, Connection ''10.0.0.5'' 2 OtherException],
         sweep_time = 2\<rparr>,
      \<lparr>accepts = [Connection ''10.0.0.5'' 3 Completed], sweep_time = 3\<rparr>] []) =
     [(''10.0.0.5'', \<lparr>ports = [1234, 5678, 9012, 1234], start_time = 0\<rparr>)]"
  by (simp add: listen_for_knocks_def step_defs iter_defs)

text \<open>
  C9. The address 10.0.0.5 has the list \<open>[1234, 5678]\<close> and knocks on 9012, which
  completes the sequence; the \<^verbatim>\<open>subprocess.run\<close> of the grant raises an exception
  that \<^verbatim>\<open>open_protected_port\<close> does not catch. Lines 90-136 run the \<^verbatim>\<open>ACCEPT\<close>
  command and report the failure with the log line of line 136, but the entry of the
  address is not deleted: it stays in the dictionary with the complete list.
\<close>

theorem failed_grant_keeps_session:
  "poll_socket [1234, 5678, 9012] 10 2222 9012 (Connection ''10.0.0.5'' 2 OtherException)
     \<lparr>knock_attempts = [(''10.0.0.5'', \<lparr>ports = [1234, 5678], start_time = 0\<rparr>)],
      trace = []\<rparr> =
   \<lparr>knock_attempts = [(''10.0.0.5'', \<lparr>ports = [1234, 5678, 9012], start_time = 0\<rparr>)],
    trace = [LogMsg INFO (MsgKnock ''10.0.0.5'' 9012),
             LogMsg INFO (MsgSequence ''10.0.0.5'' [1234, 5678, 9012]),
             LogMsg INFO (MsgCorrect ''10.0.0.5''),
             LogMsg INFO (MsgOpening 2222 ''10.0.0.5''),
             Iptables_ACCEPT 2222 ''10.0.0.5'',
             LogMsg ERROR MsgError]\<rparr>"
  by (simp add: step_defs)

end
